theory Spec2Isabelle
  imports Complex_Main "HOL-Library.AList"
begin

section \<open>Characters and strings\<close>

text \<open>
  The editor (\<^verbatim>\<open>src/editor.py\<close>) works on Python \<^verbatim>\<open>str\<close> values. A text is modelled
  as a \<^typ>\<open>string\<close> of Latin-1 code points: the character with code \<open>n\<close> stands for
  the code point U+00\<open>n\<close>, so that accented letters are letters. On these 256 code points
  the tables below are Python's: \<^verbatim>\<open>str.isspace\<close> (which is also the regex class \<^verbatim>\<open>\s\<close>
  and what \<^verbatim>\<open>str.strip\<close> removes), \<^verbatim>\<open>str.isalpha\<close>, the regex class \<^verbatim>\<open>\w\<close>,
  \<^verbatim>\<open>str.lower\<close> and \<^verbatim>\<open>str.upper\<close>; and two Latin-1 characters are equal without
  regard to case, for a literal of a pattern as for a back-reference, exactly when their
  lower-case forms are equal. Code points from U+0100 on (the ligature oe, typographic
  quotes, the ellipsis of \<^verbatim>\<open>END_PUNCT\<close>) are outside the type. Confidences are Python
  floats that are only ever compared, never computed with.
\<close>

definition upper_letters :: string where
  "upper_letters = ''ABCDEFGHIJKLMNOPQRSTUVWXYZ'' @
     [CHR 0xC0, CHR 0xC1, CHR 0xC2, CHR 0xC3, CHR 0xC4, CHR 0xC5, CHR 0xC6, CHR 0xC7,
      CHR 0xC8, CHR 0xC9, CHR 0xCA, CHR 0xCB, CHR 0xCC, CHR 0xCD, CHR 0xCE, CHR 0xCF,
      CHR 0xD0, CHR 0xD1, CHR 0xD2, CHR 0xD3, CHR 0xD4, CHR 0xD5, CHR 0xD6, CHR 0xD8,
      CHR 0xD9, CHR 0xDA, CHR 0xDB, CHR 0xDC, CHR 0xDD, CHR 0xDE]"

definition lower_letters :: string where
  "lower_letters = ''abcdefghijklmnopqrstuvwxyz'' @
     [CHR 0xE0, CHR 0xE1, CHR 0xE2, CHR 0xE3, CHR 0xE4, CHR 0xE5, CHR 0xE6, CHR 0xE7,
      CHR 0xE8, CHR 0xE9, CHR 0xEA, CHR 0xEB, CHR 0xEC, CHR 0xED, CHR 0xEE, CHR 0xEF,
      CHR 0xF0, CHR 0xF1, CHR 0xF2, CHR 0xF3, CHR 0xF4, CHR 0xF5, CHR 0xF6, CHR 0xF8,
      CHR 0xF9, CHR 0xFA, CHR 0xFB, CHR 0xFC, CHR 0xFD, CHR 0xFE]"

text \<open>
  The letters of Latin-1 that have no other case in Latin-1: the two ordinal indicators,
  the micro sign, the sharp s and the y with diaeresis.
\<close>

definition other_letters :: string where
  "other_letters = [CHR 0xAA, CHR 0xB5, CHR 0xBA, CHR 0xDF, CHR 0xFF]"

definition ascii_letters :: string where
  "ascii_letters = ''abcdefghijklmnopqrstuvwxyzABCDEFGHIJKLMNOPQRSTUVWXYZ''"

definition digit_chars :: string where
  "digit_chars = ''0123456789''"

text \<open>The superscript digits and the three fractions, numeric without being digits.\<close>

definition numeric_chars :: string where
  "numeric_chars = [CHR 0xB2, CHR 0xB3, CHR 0xB9, CHR 0xBC, CHR 0xBD, CHR 0xBE]"

definition whitespace :: string where
  "whitespace = [CHR 0x09, CHR 0x0A, CHR 0x0B, CHR 0x0C, CHR 0x0D,
                 CHR 0x1C, CHR 0x1D, CHR 0x1E, CHR 0x1F, CHR 0x20, CHR 0x85, CHR 0xA0]"

definition backslash :: char where
  "backslash = CHR 0x5C"

definition isspace :: "char \<Rightarrow> bool" where
  "isspace c = (c \<in> set whitespace)"

definition isalpha :: "char \<Rightarrow> bool" where
  "isalpha c = (c \<in> set upper_letters \<or> c \<in> set lower_letters \<or> c \<in> set other_letters)"

text \<open>
  The template parser of \<^verbatim>\<open>re\<close> has its own, ASCII, sets of letters and digits.
\<close>

definition is_ascii_letter :: "char \<Rightarrow> bool" where
  "is_ascii_letter c = (c \<in> set ascii_letters)"

definition is_digit :: "char \<Rightarrow> bool" where
  "is_digit c = (c \<in> set digit_chars)"

definition is_octdigit :: "char \<Rightarrow> bool" where
  "is_octdigit c = (c \<in> set ''01234567'')"

text \<open>The regex class \<^verbatim>\<open>\w\<close>: alphanumeric, or the underscore.\<close>

definition is_word :: "char \<Rightarrow> bool" where
  "is_word c = (isalpha c \<or> is_digit c \<or> c \<in> set numeric_chars \<or> c = CHR ''_'')"

definition lower_char :: "char \<Rightarrow> char" where
  "lower_char c = (case map_of (zip upper_letters lower_letters) c of Some d \<Rightarrow> d | None \<Rightarrow> c)"

text \<open>
  \<^verbatim>\<open>c.upper()\<close> for one character. The capital of the sharp s is two letters; the
  capitals of the micro sign and of the y with diaeresis are U+039C and U+0178, which a
  Latin-1 text cannot hold: there the result is \<open>None\<close>.
\<close>

definition upper_char :: "char \<Rightarrow> string option" where
  "upper_char c =
     (if c = CHR 0xDF then Some ''SS''
      else if c = CHR 0xB5 \<or> c = CHR 0xFF then None
      else Some [case map_of (zip lower_letters upper_letters) c of Some d \<Rightarrow> d | None \<Rightarrow> c])"

text \<open>\<^verbatim>\<open>str.lower\<close> and \<^verbatim>\<open>str.strip\<close>.\<close>

definition lower :: "string \<Rightarrow> string" where
  "lower s = map lower_char s"

definition strip :: "string \<Rightarrow> string" where
  "strip s = rev (dropWhile isspace (rev (dropWhile isspace s)))"

section \<open>The regular expressions of the editor\<close>

text \<open>
  \<^verbatim>\<open>re.sub\<close> walks the text from left to right. At each position it asks whether the
  pattern matches there; a match is cut out as one piece and the walk goes on behind it,
  otherwise the character is kept and the walk goes on one character further. A
  pattern is modelled by its matcher: given the character before the position (for
  \<^verbatim>\<open>\b\<close>) and the text from the position on, it returns the length of the match and the
  texts of its groups. All three patterns of the editor consume at least one character.
\<close>

datatype piece = Keep char | Hit string "string list"

type_synonym matcher = "char option \<Rightarrow> string \<Rightarrow> (nat \<times> string list) option"

fun re_scan :: "matcher \<Rightarrow> char option \<Rightarrow> string \<Rightarrow> piece list" where
  "re_scan M p [] = []"
| "re_scan M p (c # cs) =
     (case M p (c # cs) of
        Some (Suc k, gs) \<Rightarrow>
          Hit (c # take k cs) gs # re_scan M (Some (last (c # take k cs))) (drop k cs)
      | _ \<Rightarrow> Keep c # re_scan M (Some c) cs)"

fun is_hit :: "piece \<Rightarrow> bool" where
  "is_hit (Hit m gs) = True"
| "is_hit (Keep c) = False"



text \<open>\<^verbatim>\<open>pattern.search(text)\<close>, as a truth value.\<close>

definition re_search :: "matcher \<Rightarrow> string \<Rightarrow> bool" where
  "re_search M text = list_ex is_hit (re_scan M None text)"

text \<open>
  \<^verbatim>\<open>\b\<close> holds between two neighbours of which exactly one is a word character; the
  outside of the text counts as a non-word character.
\<close>

fun opt_word :: "char option \<Rightarrow> bool" where
  "opt_word None = False"
| "opt_word (Some c) = is_word c"

definition word_boundary :: "char option \<Rightarrow> char option \<Rightarrow> bool" where
  "word_boundary p n = (opt_word p \<noteq> opt_word n)"

fun next_char :: "string \<Rightarrow> char option" where
  "next_char [] = None"
| "next_char (c # cs) = Some c"

text \<open>
  \<^verbatim>\<open>re.compile(rf"(?i)\b{re.escape(alias)}\b")\<close>: the key as a literal, compared without
  regard to case, between two word boundaries. The editor skips an empty key before it
  builds the pattern, so the matcher is only ever asked about a non-empty key.
\<close>

definition literal_pattern :: "string \<Rightarrow> matcher" where
  "literal_pattern key p text =
     (let n = length key in
      if key \<noteq> [] \<and> n \<le> length text
         \<and> word_boundary p (next_char text)
         \<and> lower (take n text) = lower key
         \<and> word_boundary (Some (last (take n text))) (next_char (drop n text))
      then Some (n, []) else None)"

text \<open>
  \<^verbatim>\<open>\b(\w+)\s+\1\b\<close> with \<^verbatim>\<open>re.IGNORECASE\<close>. The two greedy repetitions backtrack: the
  group is tried from its longest extent down to one character, and for each the
  whitespace run from its longest extent down to one; the first combination after
  which the back-reference and the closing boundary match is the match.
\<close>

fun first_some :: "('a \<Rightarrow> 'b option) \<Rightarrow> 'a list \<Rightarrow> 'b option" where
  "first_some f [] = None"
| "first_some f (x # xs) = (case f x of Some y \<Rightarrow> Some y | None \<Rightarrow> first_some f xs)"

definition greedy :: "nat \<Rightarrow> nat list" where
  "greedy n = rev [1..<Suc n]"

definition dedup_pattern :: matcher where
  "dedup_pattern p text =
     (if \<not> word_boundary p (next_char text) then None
      else first_some (\<lambda>k.
             first_some (\<lambda>s.
               let w = take k text; rest = drop (k + s) text in
               if k \<le> length rest \<and> lower (take k rest) = lower w
                  \<and> word_boundary (Some (last (take k rest))) (next_char (drop k rest))
               then Some (k + s + k, [w]) else None)
             (greedy (length (takeWhile isspace (drop k text)))))
           (greedy (length (takeWhile is_word text))))"

text \<open>\<^verbatim>\<open>\s+\<close>, the pattern of \<^verbatim>\<open>_norm\<close>: a maximal run of whitespace.\<close>

definition space_run :: matcher where
  "space_run p text =
     (let n = length (takeWhile isspace text) in if 0 < n then Some (n, []) else None)"

subsection \<open>Replacement templates\<close>

text \<open>
  The second argument of \<^verbatim>\<open>pattern.sub\<close> is a template, not a literal: a backslash
  starts an escape. \<^verbatim>\<open>parse_template\<close> follows the template parser of CPython's
  \<^verbatim>\<open>re\<close> module (3.12): \<^verbatim>\<open>\g<n>\<close> and \<^verbatim>\<open>\1\<close> to \<^verbatim>\<open>\99\<close> are group references,
  \<^verbatim>\<open>\0\<close> and three octal digits are character codes, \<^verbatim>\<open>\a \b \f \n \r \t \v\<close> and the
  doubled backslash are the usual escapes, a backslash before any other ASCII letter
  and a backslash at the end are errors, and a backslash before anything else stays as
  it is. A reference to a group the pattern does not have is an error. Every one of
  these errors is an exception (\<^verbatim>\<open>re.error\<close>, or \<^verbatim>\<open>IndexError\<close> for an unknown group
  name) that the editor does not catch: \<open>TemplateError\<close>.

  The other values of \<open>error\<close>: \<open>KeyError\<close>, \<open>TypeError\<close> and \<open>ValueError\<close> are the
  Python exceptions of these names. \<open>OutsideLatin1\<close> is no exception: it says that the
  code returns a text with a code point beyond U+00FF, which this model cannot write.
\<close>

datatype error = TemplateError | KeyError | TypeError | ValueError | OutsideLatin1

datatype titem = Lit char | Group nat

definition digit_val :: "char \<Rightarrow> nat" where
  "digit_val c = (case map_of (zip digit_chars [0, 1, 2, 3, 4, 5, 6, 7, 8, 9]) c of
                    Some v \<Rightarrow> v | None \<Rightarrow> 0)"

definition int_of_name :: "nat \<Rightarrow> string \<Rightarrow> nat" where
  "int_of_name base s = foldl (\<lambda>a d. base * a + digit_val d) 0 s"

definition ESCAPES :: "(char \<times> char) list" where
  "ESCAPES = [(CHR ''a'', CHR 0x07), (CHR ''b'', CHR 0x08), (CHR ''f'', CHR 0x0C),
              (CHR ''n'', CHR 0x0A), (CHR ''r'', CHR 0x0D), (CHR ''t'', CHR 0x09),
              (CHR ''v'', CHR 0x0B), (CHR 0x5C, CHR 0x5C)]"

definition addgroup :: "nat \<Rightarrow> nat \<Rightarrow> string \<Rightarrow> error + (titem list \<times> string)" where
  "addgroup groups index rest =
     (if index > groups then Inl TemplateError else Inr ([Group index], rest))"

text \<open>
  One escape: \<open>c\<close> is the character behind the backslash, \<open>ds\<close> the template behind
  \<open>c\<close>; the result is what the escape stands for and the template left to parse.
\<close>

definition escape_item :: "nat \<Rightarrow> char \<Rightarrow> string \<Rightarrow> error + (titem list \<times> string)" where
  "escape_item groups c ds =
     (if c = CHR ''g'' then
        (case ds of
           [] \<Rightarrow> Inl TemplateError
         | x # rest \<Rightarrow>
             if x \<noteq> CHR ''<'' then Inl TemplateError
             else
               let name = takeWhile (\<lambda>y. y \<noteq> CHR ''>'') rest;
                   after = dropWhile (\<lambda>y. y \<noteq> CHR ''>'') rest
               in if after = [] \<or> name = [] \<or> \<not> list_all is_digit name
                  then Inl TemplateError
                  else addgroup groups (int_of_name 10 name) (tl after))
      else if c = CHR ''0'' then
        (let oct = takeWhile is_octdigit (take 2 ds)
         in Inr ([Lit (char_of (int_of_name 8 oct mod 256))], drop (length oct) ds))
      else if is_digit c then
        (case ds of
           [] \<Rightarrow> addgroup groups (digit_val c) ds
         | d2 # ds2 \<Rightarrow>
             if \<not> is_digit d2 then addgroup groups (digit_val c) ds
             else if is_octdigit c \<and> is_octdigit d2 \<and> list_ex is_octdigit (take 1 ds2) then
               (let v = int_of_name 8 [c, d2, hd ds2]
                in if v > 255 then Inl TemplateError else Inr ([Lit (char_of v)], tl ds2))
             else addgroup groups (int_of_name 10 [c, d2]) ds2)
      else
        (case map_of ESCAPES c of
           Some e \<Rightarrow> Inr ([Lit e], ds)
         | None \<Rightarrow>
             if is_ascii_letter c then Inl TemplateError else Inr ([Lit backslash, Lit c], ds)))"

function parse_template :: "nat \<Rightarrow> string \<Rightarrow> error + titem list" where
  "parse_template groups [] = Inr []"
| "parse_template groups (c # cs) =
     (if c \<noteq> backslash then
        (case parse_template groups cs of
           Inl e \<Rightarrow> Inl e
         | Inr items \<Rightarrow> Inr (Lit c # items))
      else
        (case cs of
           [] \<Rightarrow> Inl TemplateError
         | d # ds \<Rightarrow>
             (case escape_item groups d ds of
                Inl e \<Rightarrow> Inl e
              | Inr (its, rest) \<Rightarrow>
                  (case parse_template groups rest of
                     Inl e \<Rightarrow> Inl e
                   | Inr items \<Rightarrow> Inr (its @ items)))))"
  by pat_completeness auto
termination
proof (relation "measure (\<lambda>(groups, s). length s)")
  show "wf (measure (\<lambda>(groups, s). length s))"
    by simp
next
  fix groups :: nat and c :: char and cs :: string
  show "((groups, cs), (groups, c # cs)) \<in> measure (\<lambda>(groups, s). length s)"
    by simp
next
  fix groups :: nat and c d :: char and cs ds rest :: string
    and x :: "titem list \<times> string" and its :: "titem list"
  assume "cs = d # ds" and esc: "escape_item groups d ds = Inr x" and x: "(its, rest) = x"
  have dw: "length (dropWhile P ys) - Suc 0 \<le> Suc (length ys)" for P and ys :: string
    using length_dropWhile_le [of P ys] by simp
  from esc x have "length rest \<le> length ds"
    by (auto simp: escape_item_def addgroup_def Let_def dw
        split: if_splits list.splits option.splits)
  with \<open>cs = d # ds\<close>
  show "((groups, rest), (groups, c # cs)) \<in> measure (\<lambda>(groups, s). length s)"
    by simp
qed

text \<open>What a parsed template stands for at one match.\<close>

fun render_item :: "string \<Rightarrow> string list \<Rightarrow> titem \<Rightarrow> string" where
  "render_item m gs (Lit c) = [c]"
| "render_item m gs (Group 0) = m"
| "render_item m gs (Group (Suc i)) = (if i < length gs then gs ! i else [])"

definition render :: "titem list \<Rightarrow> string \<Rightarrow> string list \<Rightarrow> string" where
  "render items m gs = concat (map (render_item m gs) items)"

fun render_piece :: "titem list \<Rightarrow> piece \<Rightarrow> string" where
  "render_piece items (Keep c) = [c]"
| "render_piece items (Hit m gs) = render items m gs"

text \<open>
  \<^verbatim>\<open>pattern.sub(template, text)\<close> with the template already parsed, and with the
  template as the string the caller passes.
\<close>

definition subst :: "matcher \<Rightarrow> titem list \<Rightarrow> string \<Rightarrow> string" where
  "subst M items text = concat (map (render_piece items) (re_scan M None text))"

definition re_sub :: "matcher \<Rightarrow> nat \<Rightarrow> string \<Rightarrow> string \<Rightarrow> error + string" where
  "re_sub M groups template text =
     (case parse_template groups template of
        Inl e \<Rightarrow> Inl e
      | Inr items \<Rightarrow> Inr (subst M items text))"

text \<open>
  The two templates the editor itself writes: the single space of \<^verbatim>\<open>_norm\<close> and the
  \<^verbatim>\<open>\1\<close> of the deduplication, for a pattern with no group and with one group.
\<close>

definition space_template :: "titem list" where
  "space_template = [Lit (CHR '' '')]"

definition group1_template :: "titem list" where
  "group1_template = [Group 1]"

section \<open>Building the maps\<close>

text \<open>
  \<^verbatim>\<open>_norm(s) = re.sub(r"\s+", " ", s.lower()).strip()\<close>.
\<close>

definition norm_str :: "string \<Rightarrow> string" where
  "norm_str s = strip (subst space_run space_template (lower s))"

text \<open>
  A Python \<^verbatim>\<open>dict\<close> keeps its keys in insertion order, and the order decides which of
  two keys of the same length the editor applies first; a dictionary is therefore an
  association list, and \<^verbatim>\<open>d[k] = v\<close> is \<^const>\<open>AList.update\<close>: an existing key keeps its
  place and takes the new value, a new key goes to the end.

  The context payload is what \<^verbatim>\<open>context_inference_llm.py\<close> builds from its typed
  extraction: a term and aliases that are strings. A field that is absent is \<open>None\<close>
  here, and takes the default of the \<^verbatim>\<open>.get\<close> call. The value of a confidence key is
  given by what \<^verbatim>\<open>float()\<close> makes of it: \<open>Num r\<close> is a number, a boolean or a numeric
  string, with its value; \<open>BadType\<close> is \<^verbatim>\<open>None\<close>, a list or an object, on which
  \<^verbatim>\<open>float()\<close> raises \<^verbatim>\<open>TypeError\<close>; \<open>BadValue\<close> is a string that is no number, on which
  it raises \<^verbatim>\<open>ValueError\<close>.
\<close>

type_synonym dict = "(string \<times> string) list"

datatype float_arg = Num rat | BadType | BadValue

record glossary_entry =
  g_term :: "string option"
  g_aliases :: "string list option"
  g_confidence :: "float_arg option"

record language_error =
  incorrect_text :: "string option"
  correct_form :: "string option"
  e_confidence :: "float_arg option"

record context_payload =
  glossary :: "glossary_entry list"
  language_errors :: "language_error list"

definition get_str :: "string option \<Rightarrow> string" where
  "get_str v = (case v of None \<Rightarrow> [] | Some s \<Rightarrow> s)"

text \<open>\<^verbatim>\<open>float(d.get("confidence", 0.0))\<close>.\<close>

definition get_float :: "float_arg option \<Rightarrow> error + rat" where
  "get_float v =
     (case v of
        None \<Rightarrow> Inr 0
      | Some (Num c) \<Rightarrow> Inr c
      | Some BadType \<Rightarrow> Inl TypeError
      | Some BadValue \<Rightarrow> Inl ValueError)"

definition get_list :: "'a list option \<Rightarrow> 'a list" where
  "get_list v = (case v of None \<Rightarrow> [] | Some xs \<Rightarrow> xs)"

text \<open>A loop whose body may raise: the first exception ends it.\<close>

fun fold_raise :: "('b \<Rightarrow> 'a \<Rightarrow> error + 'b) \<Rightarrow> 'b \<Rightarrow> 'a list \<Rightarrow> error + 'b" where
  "fold_raise f acc [] = Inr acc"
| "fold_raise f acc (x # xs) =
     (case f acc x of Inl e \<Rightarrow> Inl e | Inr acc' \<Rightarrow> fold_raise f acc' xs)"

definition add_alias :: "string \<Rightarrow> dict \<Rightarrow> string \<Rightarrow> dict" where
  "add_alias canonical alias_map alias =
     (let a = strip alias
      in if a \<noteq> [] then AList.update (norm_str a) canonical alias_map else alias_map)"

definition add_glossary_entry :: "rat \<Rightarrow> dict \<Rightarrow> glossary_entry \<Rightarrow> error + dict" where
  "add_glossary_entry min_conf alias_map g =
     (case get_float (g_confidence g) of
        Inl e \<Rightarrow> Inl e
      | Inr conf \<Rightarrow>
          (let canonical = strip (get_str (g_term g))
           in if canonical = [] \<or> conf < min_conf then Inr alias_map
              else Inr (foldl (add_alias canonical)
                          (AList.update (norm_str canonical) canonical alias_map)
                          (get_list (g_aliases g)))))"

definition build_alias_map :: "context_payload \<Rightarrow> rat \<Rightarrow> error + dict" where
  "build_alias_map context_inferred min_conf =
     fold_raise (add_glossary_entry min_conf) [] (glossary context_inferred)"

definition add_language_error :: "rat \<Rightarrow> dict \<Rightarrow> language_error \<Rightarrow> error + dict" where
  "add_language_error min_conf error_map err =
     (case get_float (e_confidence err) of
        Inl e \<Rightarrow> Inl e
      | Inr conf \<Rightarrow>
          (let incorrect = strip (get_str (incorrect_text err));
               correct = strip (get_str (correct_form err))
           in if incorrect = [] \<or> correct = [] \<or> conf < min_conf then Inr error_map
              else Inr (AList.update (norm_str incorrect) correct error_map)))"

definition build_error_map :: "context_payload \<Rightarrow> rat \<Rightarrow> error + dict" where
  "build_error_map context_inferred min_conf =
     fold_raise (add_language_error min_conf) [] (language_errors context_inferred)"

text \<open>The defaults of the two \<^verbatim>\<open>min_conf\<close> parameters.\<close>

definition alias_min_conf_default :: rat where
  "alias_min_conf_default = 6 / 10"

definition error_min_conf_default :: rat where
  "error_min_conf_default = 8 / 10"

section \<open>The four fixes\<close>

datatype detail = Arrow string string | Plain string

record operation =
  op :: string
  detail :: detail
  before :: string
  after :: string
  confidence :: rat
  source :: string

text \<open>
  \<^verbatim>\<open>Arrow alias term\<close> stands for the f-string that puts the key and its replacement in
  quotes on the two sides of an arrow.

  \<^verbatim>\<open>sorted(m.keys(), key=len, reverse=True)\<close>: CPython reverses the list, sorts it
  stably by ascending key and reverses it again, so keys of equal length stay in
  insertion order.
\<close>

definition sorted_keys :: "dict \<Rightarrow> string list" where
  "sorted_keys m = rev (sort_key length (rev (map fst m)))"

text \<open>
  The loop of fix 1 and of fix 2; the two differ in the map and in the three constants
  of the operation they record.
\<close>

fun fix_loop ::
  "string \<Rightarrow> rat \<Rightarrow> string \<Rightarrow> dict \<Rightarrow> string list \<Rightarrow> string \<Rightarrow> operation list
   \<Rightarrow> error + (string \<times> operation list)" where
  "fix_loop kind conf src m [] result operations = Inr (result, operations)"
| "fix_loop kind conf src m (alias # keys) result operations =
     (case map_of m alias of
        None \<Rightarrow> Inl KeyError
      | Some replacement \<Rightarrow>
          if alias = [] then fix_loop kind conf src m keys result operations
          else if re_search (literal_pattern alias) result then
            (case re_sub (literal_pattern alias) 0 replacement result of
               Inl e \<Rightarrow> Inl e
             | Inr result' \<Rightarrow>
                 if result' \<noteq> result then
                   fix_loop kind conf src m keys result'
                     (operations @
                       [\<lparr>op = kind, detail = Arrow alias replacement, before = result,
                         after = result', confidence = conf, source = src\<rparr>])
                 else fix_loop kind conf src m keys result' operations)
          else fix_loop kind conf src m keys result operations)"

definition glossary_fix :: "dict \<Rightarrow> string \<Rightarrow> operation list \<Rightarrow> error + (string \<times> operation list)" where
  "glossary_fix alias_map result operations =
     fix_loop ''glossary_normalization'' (9 / 10) ''glossary'' alias_map
       (sorted_keys alias_map) result operations"

definition language_fix :: "dict \<Rightarrow> string \<Rightarrow> operation list \<Rightarrow> error + (string \<times> operation list)" where
  "language_fix error_map result operations =
     fix_loop ''language_error_fix'' (85 / 100) ''llm_error'' error_map
       (sorted_keys error_map) result operations"

definition dedup :: "string \<Rightarrow> string" where
  "dedup result = subst dedup_pattern group1_template result"

definition dedup_fix :: "string \<Rightarrow> operation list \<Rightarrow> string \<times> operation list" where
  "dedup_fix result operations =
     (let before_text = result; result' = dedup result
      in if result' \<noteq> before_text then
           (result', operations @
              [\<lparr>op = ''deduplication'', detail = Plain ''Removed immediate repetition'',
                before = before_text, after = result', confidence = 9 / 10,
                source = ''rule''\<rparr>])
         else (result', operations))"

definition END_PUNCT :: "char set" where
  "END_PUNCT = {CHR ''.'', CHR ''!'', CHR ''?'', CHR '':''}"

text \<open>
  \<^verbatim>\<open>result[0].upper() + result[1:]\<close> when the first character is a letter.
\<close>

definition capitalize_first :: "string \<Rightarrow> error + string" where
  "capitalize_first s =
     (case s of
        [] \<Rightarrow> Inr []
      | c # cs \<Rightarrow>
          if isalpha c then
            (case upper_char c of None \<Rightarrow> Inl OutsideLatin1 | Some u \<Rightarrow> Inr (u @ cs))
          else Inr s)"

definition add_period :: "string \<Rightarrow> string" where
  "add_period s = (if s \<noteq> [] \<and> last s \<notin> END_PUNCT then s @ ''.'' else s)"

definition punctuate :: "string \<Rightarrow> error + string" where
  "punctuate result =
     (case capitalize_first (strip result) of
        Inl e \<Rightarrow> Inl e
      | Inr r \<Rightarrow> Inr (add_period r))"

definition punctuation_fix ::
  "string \<Rightarrow> operation list \<Rightarrow> error + (string \<times> operation list)" where
  "punctuation_fix result operations =
     (case punctuate result of
        Inl e \<Rightarrow> Inl e
      | Inr result' \<Rightarrow>
          (let before_text = result
           in if result' \<noteq> before_text then
                Inr (result', operations @
                   [\<lparr>op = ''punctuation'',
                     detail = Plain ''Capitalization + ending punctuation'',
                     before = before_text, after = result', confidence = 8 / 10,
                     source = ''rule''\<rparr>])
              else Inr (result', operations)))"

definition apply_fixes :: "string \<Rightarrow> dict \<Rightarrow> dict \<Rightarrow> error + (string \<times> operation list)" where
  "apply_fixes text alias_map error_map =
     (case glossary_fix alias_map text [] of
        Inl e \<Rightarrow> Inl e
      | Inr (r1, ops1) \<Rightarrow>
          (case language_fix error_map r1 ops1 of
             Inl e \<Rightarrow> Inl e
           | Inr (r2, ops2) \<Rightarrow>
               (case dedup_fix r2 ops2 of
                  (r3, ops3) \<Rightarrow> punctuation_fix r3 ops3)))"

section \<open>Editing a transcript\<close>

text \<open>
  A segment is a dictionary whose values are arbitrary JSON. \<^verbatim>\<open>str(v)\<close> is what the
  editor does with the content: \<^verbatim>\<open>PRepr s\<close> is any value that is neither \<^verbatim>\<open>None\<close>, a
  boolean nor a string (a number, a list, an object), carried with the text \<^verbatim>\<open>str\<close>
  gives for it.
\<close>

datatype pyval = PNone | PBool bool | PStr string | PRepr string

fun py_str :: "pyval \<Rightarrow> string" where
  "py_str PNone = ''None''"
| "py_str (PBool True) = ''True''"
| "py_str (PBool False) = ''False''"
| "py_str (PStr s) = s"
| "py_str (PRepr s) = s"

type_synonym segment = "(string \<times> pyval) list"

text \<open>\<^verbatim>\<open>m.get(k)\<close> and \<^verbatim>\<open>m.get(k, "")\<close>.\<close>

definition get_or_none :: "segment \<Rightarrow> string \<Rightarrow> pyval" where
  "get_or_none m k = (case map_of m k of None \<Rightarrow> PNone | Some v \<Rightarrow> v)"

definition get_or_empty :: "segment \<Rightarrow> string \<Rightarrow> pyval" where
  "get_or_empty m k = (case map_of m k of None \<Rightarrow> PStr [] | Some v \<Rightarrow> v)"

record segment_report =
  index :: nat
  start_time :: pyval
  end_time :: pyval
  speaker :: pyval
  changed :: bool
  operations :: "operation list"

record policy =
  glossary_normalization :: bool
  language_error_correction :: bool
  deduplication :: bool
  light_punctuation :: bool
  timestamps_preserved :: bool
  speaker_labels_preserved :: bool

record editor_report =
  policy :: policy
  total_segments :: nat
  segments_modified :: nat
  segment_reports :: "segment_report list"

text \<open>
  Of the transcript object the editor reads the keys \<^verbatim>\<open>messages\<close> and
  \<^verbatim>\<open>context_inferred\<close>; a context that is missing, \<^verbatim>\<open>None\<close> or empty is the empty
  context. At the end it stores its report under the key \<^verbatim>\<open>editor\<close> of the value of
  \<^verbatim>\<open>transformation_report\<close>, which is a new dictionary when the object has no such key
  (\<open>NoReport\<close>) and the dictionary the object carries when it has one (\<open>ReportDict\<close>, whose
  other entries stay); on any other value (\<open>NotADict\<close>: \<^verbatim>\<open>None\<close>, a list, a string, a
  number) the item assignment raises \<^verbatim>\<open>TypeError\<close>. The other top-level keys are copied
  to the output as they are and are left out here.
\<close>

datatype prior_report = NoReport | ReportDict | NotADict

record transcript =
  messages :: "segment list"
  context_inferred :: "context_payload option"
  transformation_report :: prior_report

record edited_transcript =
  out_messages :: "segment list"
  out_context_inferred :: "context_payload option"
  editor :: editor_report

definition empty_context :: context_payload where
  "empty_context = \<lparr>glossary = [], language_errors = []\<rparr>"

text \<open>The body of the loop over the segments, for the segment \<open>m\<close> at position \<open>i\<close>.\<close>

definition edit_segment ::
  "dict \<Rightarrow> dict \<Rightarrow> nat \<Rightarrow> segment \<Rightarrow> error + (segment \<times> segment_report)" where
  "edit_segment alias_map error_map i m =
     (let original_content = py_str (get_or_empty m ''content'')
      in case apply_fixes original_content alias_map error_map of
           Inl e \<Rightarrow> Inl e
         | Inr (fixed_content, ops) \<Rightarrow>
             Inr (AList.update ''content'' (PStr fixed_content) m,
                  \<lparr>index = i,
                    start_time = get_or_none m ''start_time'',
                    end_time = get_or_none m ''end_time'',
                    speaker = get_or_none m ''speaker'',
                    changed = (original_content \<noteq> fixed_content),
                    operations = ops\<rparr>))"

fun edit_messages ::
  "dict \<Rightarrow> dict \<Rightarrow> nat \<Rightarrow> segment list \<Rightarrow> error + (segment list \<times> segment_report list)" where
  "edit_messages alias_map error_map i [] = Inr ([], [])"
| "edit_messages alias_map error_map i (m # ms) =
     (case edit_segment alias_map error_map i m of
        Inl e \<Rightarrow> Inl e
      | Inr (edited, report) \<Rightarrow>
          (case edit_messages alias_map error_map (Suc i) ms of
             Inl e \<Rightarrow> Inl e
           | Inr (edited_messages, reports) \<Rightarrow> Inr (edited # edited_messages, report # reports)))"

definition edit_transcript :: "transcript \<Rightarrow> error + edited_transcript" where
  "edit_transcript obj =
     (let ctx = (case context_inferred obj of None \<Rightarrow> empty_context | Some c \<Rightarrow> c)
      in case build_alias_map ctx alias_min_conf_default of
           Inl e \<Rightarrow> Inl e
         | Inr alias_map \<Rightarrow>
             (case build_error_map ctx (70 / 100) of
                Inl e \<Rightarrow> Inl e
              | Inr error_map \<Rightarrow>
                  (case edit_messages alias_map error_map 0 (messages obj) of
                     Inl e \<Rightarrow> Inl e
                   | Inr (edited_messages, reports) \<Rightarrow>
                       if transformation_report obj = NotADict then Inl TypeError
                       else
                         Inr \<lparr>out_messages = edited_messages,
                              out_context_inferred = context_inferred obj,
                              editor =
                                \<lparr>policy =
                                   \<lparr>glossary_normalization = True,
                                    language_error_correction = True,
                                    deduplication = True, light_punctuation = True,
                                    timestamps_preserved = True,
                                    speaker_labels_preserved = True\<rparr>,
                                 total_segments = length (messages obj),
                                 segments_modified = length (filter changed reports),
                                 segment_reports = reports\<rparr>\<rparr>)))"

section \<open>Vocabulary of the properties\<close>

text \<open>
  A list of operations is a chain from \<open>t\<close> to \<open>r\<close> when every operation starts from
  the text the one before it left, the first starts from \<open>t\<close>, the last leaves \<open>r\<close>,
  and every operation changes its text.
\<close>

fun chain :: "string \<Rightarrow> operation list \<Rightarrow> string \<Rightarrow> bool" where
  "chain t [] r = (t = r)"
| "chain t (x # xs) r = (before x = t \<and> before x \<noteq> after x \<and> chain (after x) xs r)"

text \<open>
  The fields of a segment other than its content, in their order; and a segment whose
  content is missing or is the empty string.
\<close>

definition other_fields :: "segment \<Rightarrow> segment" where
  "other_fields m = filter (\<lambda>p. fst p \<noteq> ''content'') m"

definition contentless :: "segment \<Rightarrow> bool" where
  "contentless m = (map_of m ''content'' = None \<or> map_of m ''content'' = Some (PStr []))"

text \<open>
  The canonical term of a glossary entry as the builder stores it; a confidence that
  \<^verbatim>\<open>float()\<close> reads and that is below a threshold; the test the builder accepts an
  entry by; the keys an accepted entry writes: the normalised term, then the normalised
  aliases that are not empty after trimming; and an entry that writes a given key.
\<close>

definition canonical :: "glossary_entry \<Rightarrow> string" where
  "canonical g = strip (get_str (g_term g))"

definition below :: "rat \<Rightarrow> float_arg option \<Rightarrow> bool" where
  "below min_conf v = (case get_float v of Inl e \<Rightarrow> False | Inr c \<Rightarrow> c < min_conf)"

definition accepted :: "rat \<Rightarrow> glossary_entry \<Rightarrow> bool" where
  "accepted min_conf g =
     (canonical g \<noteq> [] \<and>
      (case get_float (g_confidence g) of Inl e \<Rightarrow> False | Inr c \<Rightarrow> \<not> c < min_conf))"

definition alias_keys :: "glossary_entry \<Rightarrow> string list" where
  "alias_keys g = map norm_str (filter (\<lambda>a. a \<noteq> []) (map strip (get_list (g_aliases g))))"

definition entry_keys :: "glossary_entry \<Rightarrow> string list" where
  "entry_keys g = norm_str (canonical g) # alias_keys g"

definition writes :: "rat \<Rightarrow> glossary_entry \<Rightarrow> string \<Rightarrow> bool" where
  "writes min_conf g k = (accepted min_conf g \<and> k \<in> set (entry_keys g))"

text \<open>
  A context without the entries below the two thresholds \<^verbatim>\<open>edit_transcript\<close> works
  with, and what \<^verbatim>\<open>edit_transcript\<close> makes of the segments: the edited messages and
  the report.
\<close>

definition drop_low_confidence :: "context_payload \<Rightarrow> context_payload" where
  "drop_low_confidence ctx =
     \<lparr>glossary =
        filter (\<lambda>g. \<not> below alias_min_conf_default (g_confidence g)) (glossary ctx),
      language_errors =
        filter (\<lambda>e. \<not> below (70 / 100) (e_confidence e)) (language_errors ctx)\<rparr>"

definition edit_result :: "transcript \<Rightarrow> error + (segment list \<times> editor_report)" where
  "edit_result obj =
     (case edit_transcript obj of
        Inl e \<Rightarrow> Inl e
      | Inr out \<Rightarrow> Inr (out_messages out, editor out))"


definition plain :: "string \<Rightarrow> bool" where
  "plain s = (backslash \<notin> set s)"

section \<open>Facts about characters, trimming and templates\<close>

lemma to_upper_cases:
  "(c \<notin> set lower_letters \<and> map_of (zip lower_letters upper_letters) c = None)
   \<or> (c \<in> set lower_letters
      \<and> (\<exists>d. map_of (zip lower_letters upper_letters) c = Some d \<and> d \<in> set upper_letters))"
  unfolding lower_letters_def upper_letters_def by simp

lemma upper_not_lower: "c \<in> set upper_letters \<Longrightarrow> c \<notin> set lower_letters"
  unfolding lower_letters_def upper_letters_def by auto

lemma upper_not_other: "c \<in> set upper_letters \<Longrightarrow> c \<notin> set other_letters"
  unfolding other_letters_def upper_letters_def by auto

lemma other_not_lower: "c \<in> set other_letters \<Longrightarrow> c \<notin> set lower_letters"
  unfolding other_letters_def lower_letters_def by auto

lemma letters_not_space: "isalpha c \<Longrightarrow> \<not> isspace c"
  unfolding isalpha_def lower_letters_def upper_letters_def other_letters_def isspace_def
    whitespace_def
  by auto

lemma end_punct_not_space: "c \<in> END_PUNCT \<Longrightarrow> \<not> isspace c"
  by (auto simp: END_PUNCT_def isspace_def whitespace_def)

text \<open>
  A character that is its own capital: not a lower-case letter with a capital in
  Latin-1, and none of the three letters whose capital is written otherwise.
\<close>

lemma upper_char_self:
  assumes "c \<notin> set lower_letters" and "c \<noteq> CHR 0xDF" and "c \<noteq> CHR 0xB5" and "c \<noteq> CHR 0xFF"
  shows "upper_char c = Some [c]"
  using assms to_upper_cases [of c] by (auto simp: upper_char_def)

lemma capital_S: "upper_char (CHR ''S'') = Some ''S''" "isalpha (CHR ''S'')"
  by (simp_all add: upper_char_def isalpha_def lower_letters_def upper_letters_def)

lemma upper_char_capital:
  assumes "isalpha c" and "upper_char c = Some u"
  shows "u \<noteq> [] \<and> isalpha (hd u) \<and> upper_char (hd u) = Some [hd u]"
proof (cases "c = CHR 0xDF")
  case True
  with assms(2) have "u = ''SS''"
    by (simp add: upper_char_def)
  then show ?thesis
    by (simp add: capital_S)
next
  case False
  with assms(2) have c: "c \<noteq> CHR 0xB5" "c \<noteq> CHR 0xFF"
    by (auto simp: upper_char_def split: if_splits)
  show ?thesis
  proof (cases "c \<in> set lower_letters")
    case True
    with to_upper_cases [of c] obtain d where
      d: "map_of (zip lower_letters upper_letters) c = Some d" "d \<in> set upper_letters"
      by auto
    with assms(2) False c have u: "u = [d]"
      by (simp add: upper_char_def)
    from d(2) have "d \<notin> set lower_letters" "d \<notin> set other_letters"
      by (simp_all add: upper_not_lower upper_not_other)
    then have "upper_char d = Some [d]"
      by (intro upper_char_self) (auto simp: other_letters_def)
    with d(2) show ?thesis
      by (simp add: u isalpha_def)
  next
    case notlower: False
    with to_upper_cases [of c] have "map_of (zip lower_letters upper_letters) c = None"
      by auto
    with assms(2) False c have u: "u = [c]"
      by (simp add: upper_char_def)
    from notlower False c have "upper_char c = Some [c]"
      by (intro upper_char_self)
    with assms(1) show ?thesis
      by (simp add: u)
  qed
qed

lemma strip_ends:
  "strip s = [] \<or> (\<not> isspace (hd (strip s)) \<and> \<not> isspace (last (strip s)))"
proof (cases "dropWhile isspace s")
  case Nil
  have "strip s = []"
    unfolding strip_def Nil by simp
  then show ?thesis ..
next
  case (Cons d ds)
  have "\<not> isspace (hd (dropWhile isspace s))"
    by (rule hd_dropWhile) (simp add: Cons)
  then have d: "\<not> isspace d"
    by (simp add: Cons)
  define e where "e = dropWhile isspace (rev (d # ds))"
  have "d \<in> set (rev (d # ds))" by simp
  with d have ne: "e \<noteq> []"
    unfolding e_def dropWhile_eq_Nil_conv by blast
  then have h: "\<not> isspace (hd e)"
    unfolding e_def by (rule hd_dropWhile)
  have "rev (d # ds) = takeWhile isspace (rev (d # ds)) @ e"
    unfolding e_def by simp
  with ne have "last (rev (d # ds)) = last e"
    by (metis last_appendR)
  then have l: "last e = d" by simp
  have "strip s = rev e"
    unfolding strip_def Cons e_def ..
  with ne h l d show ?thesis
    by (simp add: hd_rev last_rev)
qed

lemma strip_id:
  assumes "s \<noteq> []" and "\<not> isspace (hd s)" and "\<not> isspace (last s)"
  shows "strip s = s"
proof -
  from assms(1,2) have 1: "dropWhile isspace s = s"
    by (cases s) auto
  from assms(1,3) have "\<not> isspace (hd (rev s))"
    by (simp add: hd_rev)
  with assms(1) have 2: "dropWhile isspace (rev s) = rev s"
    by (cases "rev s") auto
  show ?thesis
    unfolding strip_def 1 2 by simp
qed

lemma punctuate_empty: "punctuate [] = Inr []"
  by (simp add: punctuate_def strip_def capitalize_first_def add_period_def)

lemma punctuate_idem:
  assumes "punctuate x = Inr r"
  shows "punctuate r = Inr r"
proof (cases "strip x")
  case Nil
  with assms have "r = []"
    by (simp add: punctuate_def capitalize_first_def add_period_def)
  then show ?thesis
    by (simp add: punctuate_empty)
next
  case (Cons c cs)
  with strip_ends [of x] have c: "\<not> isspace c"
    by auto
  from assms obtain w where cap: "capitalize_first (c # cs) = Inr w" and r: "r = add_period w"
    by (auto simp: punctuate_def Cons split: sum.splits)
  have w: "w \<noteq> [] \<and> \<not> isspace (hd w) \<and> (isalpha (hd w) \<longrightarrow> upper_char (hd w) = Some [hd w])"
  proof (cases "isalpha c")
    case True
    with cap obtain u where u: "upper_char c = Some u" and wu: "w = u @ cs"
      by (auto simp: capitalize_first_def split: option.splits)
    from upper_char_capital [OF True u] show ?thesis
      by (simp add: wu letters_not_space)
  next
    case False
    with cap have "w = c # cs"
      by (simp add: capitalize_first_def)
    with False c show ?thesis
      by simp
  qed
  have rne: "r \<noteq> []" and rhd: "hd r = hd w"
    using w unfolding r by (simp_all add: add_period_def)
  have rlast: "last r \<in> END_PUNCT"
    using w unfolding r by (simp add: add_period_def END_PUNCT_def)
  from rlast have "\<not> isspace (last r)"
    by (rule end_punct_not_space)
  with rne rhd w have s: "strip r = r"
    by (simp add: strip_id)
  from rne rhd w have cf: "capitalize_first r = Inr r"
    by (cases r) (auto simp: capitalize_first_def)
  from rlast have "add_period r = r"
    by (simp add: add_period_def)
  with s cf show ?thesis
    by (simp add: punctuate_def)
qed

lemma parse_template_literal:
  "backslash \<notin> set t \<Longrightarrow> parse_template groups t = Inr (map Lit t)"
  by (induction t) auto

lemma render_literal: "render (map Lit t) m gs = t"
  by (induction t) (auto simp: render_def)

lemma render_piece_literal:
  "render_piece (map Lit t) = (\<lambda>p. case p of Keep c \<Rightarrow> [c] | Hit m gs \<Rightarrow> t)"
proof
  fix p show "render_piece (map Lit t) p = (case p of Keep c \<Rightarrow> [c] | Hit m gs \<Rightarrow> t)"
    by (cases p) (simp_all add: render_literal)
qed

lemma re_sub_literal:
  "backslash \<notin> set t \<Longrightarrow>
   re_sub M groups t text =
     Inr (concat (map (\<lambda>p. case p of Keep c \<Rightarrow> [c] | Hit m gs \<Rightarrow> t) (re_scan M None text)))"
  by (simp add: re_sub_def parse_template_literal subst_def render_piece_literal)


lemma space_template_parsed: "parse_template 0 '' '' = Inr space_template"
  by (simp add: space_template_def backslash_def)

lemma group1_template_parsed: "parse_template 1 [backslash, CHR ''1''] = Inr group1_template"
  by (simp add: group1_template_def escape_item_def addgroup_def is_digit_def digit_chars_def
      digit_val_def)





lemma re_search_empty: "re_search M [] = False"
  by (simp add: re_search_def)

lemma fix_loop_empty_text:
  "set ks \<subseteq> fst ` set m \<Longrightarrow> fix_loop kind conf src m ks [] ops = Inr ([], ops)"
proof (induction ks)
  case Nil
  then show ?case by simp
next
  case (Cons a ks)
  then have "a \<in> fst ` set m" by simp
  then obtain v where "map_of m a = Some v"
    by (cases "map_of m a") (auto simp: map_of_eq_None_iff)
  with Cons show ?case by (simp add: re_search_empty)
qed

lemma set_sorted_keys: "set (sorted_keys m) = fst ` set m"
  by (simp add: sorted_keys_def)

section \<open>Three scenarios of the specification\<close>

text \<open>
  The correction of \<^verbatim>\<open>tres\<close> into the word with the e grave, the repeated \<^verbatim>\<open>oui\<close>, and
  the sentence that needs nothing.
\<close>

lemma language_error_scenario:
  "apply_fixes ''je pense que il est tres bon'' [] [(''tres'', [CHR ''t'', CHR ''r'', CHR 0xE8, CHR ''s''])] =
     Inr (''Je pense que il est tr'' @ CHR 0xE8 # ''s bon.'',
       [\<lparr>op = ''language_error_fix'',
         detail = Arrow ''tres'' [CHR ''t'', CHR ''r'', CHR 0xE8, CHR ''s''],
         before = ''je pense que il est tres bon'',
         after = ''je pense que il est tr'' @ CHR 0xE8 # ''s bon'',
         confidence = 85 / 100, source = ''llm_error''\<rparr>,
        \<lparr>op = ''punctuation'', detail = Plain ''Capitalization + ending punctuation'',
         before = ''je pense que il est tr'' @ CHR 0xE8 # ''s bon'',
         after = ''Je pense que il est tr'' @ CHR 0xE8 # ''s bon.'',
         confidence = 8 / 10, source = ''rule''\<rparr>])"
  by code_simp

lemma dedup_scenario:
  "apply_fixes (''oui oui c'' @ CHR 0x27 # ''est bon'') [] [] =
     Inr (''Oui c'' @ CHR 0x27 # ''est bon.'',
       [\<lparr>op = ''deduplication'', detail = Plain ''Removed immediate repetition'',
         before = ''oui oui c'' @ CHR 0x27 # ''est bon'',
         after = ''oui c'' @ CHR 0x27 # ''est bon'', confidence = 9 / 10, source = ''rule''\<rparr>,
        \<lparr>op = ''punctuation'', detail = Plain ''Capitalization + ending punctuation'',
         before = ''oui c'' @ CHR 0x27 # ''est bon'',
         after = ''Oui c'' @ CHR 0x27 # ''est bon.'', confidence = 8 / 10, source = ''rule''\<rparr>])"
  by code_simp

lemma no_op_scenario: "apply_fixes ''Tout va bien.'' [] [] = Inr (''Tout va bien.'', [])"
  by code_simp

text \<open>
  An accented initial is capitalised like any other letter; the capital of the sharp s
  is two letters; the capital of the y with diaeresis is not a Latin-1 character.
\<close>

lemma accented_initials:
  "punctuate (CHR 0xE9 # ''t'' @ [CHR 0xE9]) = Inr (CHR 0xC9 # ''t'' @ [CHR 0xE9, CHR ''.''])
   \<and> punctuate [CHR 0xDF, CHR ''a''] = Inr ''SSa.''
   \<and> punctuate [CHR 0xFF, CHR ''a''] = Inl OutsideLatin1"
  by code_simp

section \<open>The operation trace\<close>

lemma chain_snoc:
  "chain t (xs @ [x]) r = (chain t xs (before x) \<and> before x \<noteq> after x \<and> after x = r)"
  by (induction xs arbitrary: t) auto

lemma fix_loop_chain:
  "chain t ops result \<Longrightarrow> fix_loop kind conf src m keys result ops = Inr (r', ops')
   \<Longrightarrow> chain t ops' r'"
proof (induction keys arbitrary: result ops)
  case Nil
  then show ?case by simp
next
  case (Cons a ks)
  show ?case
  proof (cases "map_of m a")
    case None
    with Cons.prems show ?thesis by simp
  next
    case (Some replacement)
    show ?thesis
    proof (cases "a \<noteq> [] \<and> re_search (literal_pattern a) result")
      case False
      with Some Cons.prems have "fix_loop kind conf src m ks result ops = Inr (r', ops')"
        by (auto split: if_splits)
      with Cons.IH Cons.prems(1) show ?thesis by blast
    next
      case True
      with Some Cons.prems(2) obtain res where
        sub: "re_sub (literal_pattern a) 0 replacement result = Inr res"
        by (cases "re_sub (literal_pattern a) 0 replacement result") auto
      show ?thesis
      proof (cases "res = result")
        case True
        with \<open>a \<noteq> [] \<and> re_search (literal_pattern a) result\<close> Some sub Cons.prems
        have "fix_loop kind conf src m ks result ops = Inr (r', ops')"
          by simp
        with Cons.IH Cons.prems(1) show ?thesis by blast
      next
        case False
        let ?o = "\<lparr>op = kind, detail = Arrow a replacement, before = result,
                   after = res, confidence = conf, source = src\<rparr>"
        from False \<open>a \<noteq> [] \<and> re_search (literal_pattern a) result\<close> Some sub Cons.prems
        have run: "fix_loop kind conf src m ks res (ops @ [?o]) = Inr (r', ops')"
          by simp
        from False Cons.prems(1) have "chain t (ops @ [?o]) res"
          by (simp add: chain_snoc)
        with Cons.IH run show ?thesis by blast
      qed
    qed
  qed
qed

lemma dedup_fix_chain:
  "chain t ops result \<Longrightarrow> dedup_fix result ops = (r', ops') \<Longrightarrow> chain t ops' r'"
  by (auto simp: dedup_fix_def Let_def chain_snoc split: if_splits)

lemma punctuation_fix_chain:
  "chain t ops result \<Longrightarrow> punctuation_fix result ops = Inr (r', ops') \<Longrightarrow> chain t ops' r'"
  by (auto simp: punctuation_fix_def Let_def chain_snoc split: if_splits sum.splits)

lemma apply_fixes_chain:
  assumes "apply_fixes text alias_map error_map = Inr (result, ops)"
  shows "chain text ops result"
proof -
  from assms obtain r1 ops1 r2 ops2 r3 ops3 where
    g: "glossary_fix alias_map text [] = Inr (r1, ops1)" and
    l: "language_fix error_map r1 ops1 = Inr (r2, ops2)" and
    d: "dedup_fix r2 ops2 = (r3, ops3)" and
    p: "punctuation_fix r3 ops3 = Inr (result, ops)"
    by (auto simp: apply_fixes_def split: sum.splits prod.splits)
  from g have "chain text ops1 r1"
    unfolding glossary_fix_def by (rule fix_loop_chain [rotated]) simp
  with l have "chain text ops2 r2"
    unfolding language_fix_def by (rule fix_loop_chain [rotated])
  with d have "chain text ops3 r3" by (rule dedup_fix_chain [rotated])
  with p show ?thesis by (rule punctuation_fix_chain [rotated])
qed

lemma chain_first: "chain t ops r \<Longrightarrow> ops \<noteq> [] \<Longrightarrow> before (hd ops) = t"
  by (cases ops) auto

lemma chain_last: "chain t ops r \<Longrightarrow> ops \<noteq> [] \<Longrightarrow> after (last ops) = r"
  by (induction ops arbitrary: t) (auto split: if_splits)

lemma chain_link:
  "chain t ops r \<Longrightarrow> Suc i < length ops \<Longrightarrow> before (ops ! Suc i) = after (ops ! i)"
proof (induction ops arbitrary: t i)
  case Nil
  then show ?case by simp
next
  case (Cons x xs)
  show ?case
  proof (cases i)
    case 0
    with Cons.prems show ?thesis by (cases xs) auto
  next
    case (Suc j)
    with Cons.prems Cons.IH [of "after x" j] show ?thesis by simp
  qed
qed

lemma chain_changes: "chain t ops r \<Longrightarrow> x \<in> set ops \<Longrightarrow> before x \<noteq> after x"
  by (induction ops arbitrary: t) auto


text \<open>
  C10. The operations \<^verbatim>\<open>apply_fixes\<close> returns are snapshots of the whole text that
  follow one another: with no operation the text is returned as it came; otherwise the
  first operation starts from the input text, each later one starts from what the one
  before it left, the last one leaves the returned text, and every operation has a
  \<^verbatim>\<open>before\<close> different from its \<^verbatim>\<open>after\<close>.
\<close>

theorem operations_form_a_chain:
  assumes "apply_fixes text alias_map error_map = Inr (result, ops)"
  shows "(ops = [] \<longrightarrow> result = text)
       \<and> (ops \<noteq> [] \<longrightarrow> before (hd ops) = text \<and> after (last ops) = result)
       \<and> (\<forall>i. Suc i < length ops \<longrightarrow> before (ops ! Suc i) = after (ops ! i))
       \<and> (\<forall>x \<in> set ops. before x \<noteq> after x)"
proof -
  from assms have c: "chain text ops result" by (rule apply_fixes_chain)
  then show ?thesis
    using chain_first [OF c] chain_last [OF c] chain_link [OF c] chain_changes [OF c]
    by (cases ops) auto
qed

theorem operations_form_a_chain_witness:
  "apply_fixes ''oui oui bon'' [] [] =
     Inr (''Oui bon.'',
       [\<lparr>op = ''deduplication'', detail = Plain ''Removed immediate repetition'',
         before = ''oui oui bon'', after = ''oui bon'', confidence = 9 / 10,
         source = ''rule''\<rparr>,
        \<lparr>op = ''punctuation'', detail = Plain ''Capitalization + ending punctuation'',
         before = ''oui bon'', after = ''Oui bon.'', confidence = 8 / 10,
         source = ''rule''\<rparr>])
   \<and> before (hd
       [\<lparr>op = ''deduplication'', detail = Plain ''Removed immediate repetition'',
         before = ''oui oui bon'', after = ''oui bon'', confidence = 9 / 10,
         source = ''rule''\<rparr>,
        \<lparr>op = ''punctuation'', detail = Plain ''Capitalization + ending punctuation'',
         before = ''oui bon'', after = ''Oui bon.'', confidence = 8 / 10,
         source = ''rule''\<rparr>]) = ''oui oui bon''"
proof -
  have run: "apply_fixes ''oui oui bon'' [] [] =
     Inr (''Oui bon.'',
       [\<lparr>op = ''deduplication'', detail = Plain ''Removed immediate repetition'',
         before = ''oui oui bon'', after = ''oui bon'', confidence = 9 / 10,
         source = ''rule''\<rparr>,
        \<lparr>op = ''punctuation'', detail = Plain ''Capitalization + ending punctuation'',
         before = ''oui bon'', after = ''Oui bon.'', confidence = 8 / 10,
         source = ''rule''\<rparr>])"
    by code_simp
  from operations_form_a_chain [OF run] run show ?thesis
    by simp
qed

section \<open>What editing leaves alone\<close>

lemma filter_update_other:
  "filter (\<lambda>p. fst p \<noteq> k) (AList.update k v al) = filter (\<lambda>p. fst p \<noteq> k) al"
  by (induction al) auto

lemma edit_segment_frame:
  assumes "edit_segment alias_map error_map i m = Inr (m', rep)"
  shows "other_fields m' = other_fields m"
    and "k \<noteq> ''content'' \<Longrightarrow> map_of m' k = map_of m k"
proof -
  from assms obtain fixed where m': "m' = AList.update ''content'' (PStr fixed) m"
    by (auto simp: edit_segment_def Let_def split: sum.splits)
  show "other_fields m' = other_fields m"
    unfolding m' other_fields_def by (rule filter_update_other)
  show "map_of m' k = map_of m k" if "k \<noteq> ''content''"
    using that unfolding m' by (simp add: update_conv')
qed

lemma edit_messages_frame:
  "edit_messages alias_map error_map i ms = Inr (ms', reps) \<Longrightarrow>
   length ms' = length ms \<and>
   (\<forall>j < length ms. other_fields (ms' ! j) = other_fields (ms ! j)
      \<and> (\<forall>k. k \<noteq> ''content'' \<longrightarrow> map_of (ms' ! j) k = map_of (ms ! j) k))"
proof (induction ms arbitrary: i ms' reps)
  case Nil
  then show ?case by simp
next
  case (Cons m ms)
  from Cons.prems obtain e r es rs where
    seg: "edit_segment alias_map error_map i m = Inr (e, r)" and
    rest: "edit_messages alias_map error_map (Suc i) ms = Inr (es, rs)" and
    out: "ms' = e # es"
    by (auto split: sum.splits)
  from Cons.IH [OF rest] have len: "length es = length ms" and
    ih: "\<And>j. j < length ms \<Longrightarrow> other_fields (es ! j) = other_fields (ms ! j)
      \<and> (\<forall>k. k \<noteq> ''content'' \<longrightarrow> map_of (es ! j) k = map_of (ms ! j) k)"
    by blast+
  show ?case
  proof (intro conjI allI impI)
    show "length ms' = length (m # ms)" using out len by simp
  next
    fix j assume "j < length (m # ms)"
    then show "other_fields (ms' ! j) = other_fields ((m # ms) ! j)"
      using out ih edit_segment_frame(1) [OF seg] by (cases j) auto
  next
    fix j k assume "j < length (m # ms)" and "k \<noteq> ''content''"
    then show "map_of (ms' ! j) k = map_of ((m # ms) ! j) k"
      using out ih edit_segment_frame(2) [OF seg] by (cases j) auto
  qed
qed

text \<open>
  C3. In the output of \<^verbatim>\<open>edit_transcript\<close> there are as many segments as in the input,
  in the same order, and the segment at each position carries every field of the input
  segment at that position (start time, end time, speaker and any other key) with the
  same value and in the same order; only the content may differ.
\<close>

theorem only_content_changes:
  assumes "edit_transcript obj = Inr out"
  shows "length (out_messages out) = length (messages obj)
       \<and> (\<forall>i < length (messages obj).
            other_fields (out_messages out ! i) = other_fields (messages obj ! i)
            \<and> (\<forall>k. k \<noteq> ''content'' \<longrightarrow>
                  map_of (out_messages out ! i) k = map_of (messages obj ! i) k))"
proof -
  from assms obtain am em reps where
    "edit_messages am em 0 (messages obj) = Inr (out_messages out, reps)"
    by (auto simp: edit_transcript_def Let_def split: sum.splits if_splits)
  then show ?thesis by (rule edit_messages_frame)
qed

theorem only_content_changes_witness:
  "edit_transcript
     \<lparr>messages = [[(''start_time'', PRepr ''0.0''), (''end_time'', PRepr ''1.5''),
                   (''speaker'', PStr ''spk_0''), (''content'', PStr ''oui oui bon'')]],
      context_inferred = None, transformation_report = NoReport\<rparr>
   = Inr \<lparr>out_messages = [[(''start_time'', PRepr ''0.0''), (''end_time'', PRepr ''1.5''),
                           (''speaker'', PStr ''spk_0''), (''content'', PStr ''Oui bon.'')]],
          out_context_inferred = None,
          editor =
            \<lparr>policy =
               \<lparr>glossary_normalization = True, language_error_correction = True,
                deduplication = True, light_punctuation = True,
                timestamps_preserved = True, speaker_labels_preserved = True\<rparr>,
             total_segments = 1, segments_modified = 1,
             segment_reports =
               [\<lparr>index = 0, start_time = PRepr ''0.0'', end_time = PRepr ''1.5'',
                 speaker = PStr ''spk_0'', changed = True,
                 operations =
                   [\<lparr>op = ''deduplication'', detail = Plain ''Removed immediate repetition'',
                     before = ''oui oui bon'', after = ''oui bon'', confidence = 9 / 10,
                     source = ''rule''\<rparr>,
                    \<lparr>op = ''punctuation'',
                     detail = Plain ''Capitalization + ending punctuation'',
                     before = ''oui bon'', after = ''Oui bon.'', confidence = 8 / 10,
                     source = ''rule''\<rparr>]\<rparr>]\<rparr>\<rparr>
   \<and> other_fields [(''start_time'', PRepr ''0.0''), (''end_time'', PRepr ''1.5''),
                   (''speaker'', PStr ''spk_0''), (''content'', PStr ''Oui bon.'')]
     = other_fields [(''start_time'', PRepr ''0.0''), (''end_time'', PRepr ''1.5''),
                     (''speaker'', PStr ''spk_0''), (''content'', PStr ''oui oui bon'')]"
proof -
  have run: "edit_transcript
     \<lparr>messages = [[(''start_time'', PRepr ''0.0''), (''end_time'', PRepr ''1.5''),
                   (''speaker'', PStr ''spk_0''), (''content'', PStr ''oui oui bon'')]],
      context_inferred = None, transformation_report = NoReport\<rparr>
   = Inr \<lparr>out_messages = [[(''start_time'', PRepr ''0.0''), (''end_time'', PRepr ''1.5''),
                           (''speaker'', PStr ''spk_0''), (''content'', PStr ''Oui bon.'')]],
          out_context_inferred = None,
          editor =
            \<lparr>policy =
               \<lparr>glossary_normalization = True, language_error_correction = True,
                deduplication = True, light_punctuation = True,
                timestamps_preserved = True, speaker_labels_preserved = True\<rparr>,
             total_segments = 1, segments_modified = 1,
             segment_reports =
               [\<lparr>index = 0, start_time = PRepr ''0.0'', end_time = PRepr ''1.5'',
                 speaker = PStr ''spk_0'', changed = True,
                 operations =
                   [\<lparr>op = ''deduplication'', detail = Plain ''Removed immediate repetition'',
                     before = ''oui oui bon'', after = ''oui bon'', confidence = 9 / 10,
                     source = ''rule''\<rparr>,
                    \<lparr>op = ''punctuation'',
                     detail = Plain ''Capitalization + ending punctuation'',
                     before = ''oui bon'', after = ''Oui bon.'', confidence = 8 / 10,
                     source = ''rule''\<rparr>]\<rparr>]\<rparr>\<rparr>"
    by code_simp
  from only_content_changes [OF run] run show ?thesis
    by simp
qed

section \<open>Confidence gating\<close>

lemma fold_raise_append:
  "fold_raise f a (xs @ ys) =
     (case fold_raise f a xs of Inl e \<Rightarrow> Inl e | Inr b \<Rightarrow> fold_raise f b ys)"
  by (induction xs arbitrary: a) (auto split: sum.splits)

lemma fold_raise_filter_skip:
  "(\<And>a x. x \<in> set xs \<Longrightarrow> \<not> P x \<Longrightarrow> f a x = Inr a) \<Longrightarrow>
   fold_raise f a (filter P xs) = fold_raise f a xs"
  by (induction xs arbitrary: a) (auto split: sum.splits)

lemma add_glossary_entry_low:
  "below min_conf (g_confidence g) \<Longrightarrow> add_glossary_entry min_conf am g = Inr am"
  by (auto simp: add_glossary_entry_def below_def Let_def split: sum.splits)

lemma add_language_error_low:
  "below min_conf (e_confidence e) \<Longrightarrow> add_language_error min_conf em e = Inr em"
  by (auto simp: add_language_error_def below_def Let_def split: sum.splits)

lemma build_alias_map_filter:
  "build_alias_map
     (ctx\<lparr>glossary := filter (\<lambda>g. \<not> below min_conf (g_confidence g)) (glossary ctx)\<rparr>) min_conf
   = build_alias_map ctx min_conf"
  unfolding build_alias_map_def
  by (simp, rule fold_raise_filter_skip) (simp add: add_glossary_entry_low)

lemma build_error_map_filter:
  "build_error_map
     (ctx\<lparr>language_errors :=
            filter (\<lambda>e. \<not> below min_conf (e_confidence e)) (language_errors ctx)\<rparr>) min_conf
   = build_error_map ctx min_conf"
  unfolding build_error_map_def
  by (simp, rule fold_raise_filter_skip) (simp add: add_language_error_low)

lemma set_update_subset: "set (AList.update k v al) \<subseteq> insert (k, v) (set al)"
  by (induction al) auto

lemma add_aliases_pairs:
  "(k, v) \<in> set (foldl (add_alias c) am as) \<Longrightarrow>
   (k, v) \<in> set am \<or> (v = c \<and> k \<in> set (map norm_str (filter (\<lambda>a. a \<noteq> []) (map strip as))))"
proof (induction as arbitrary: am)
  case Nil
  then show ?case by simp
next
  case (Cons a as)
  from Cons.prems have "(k, v) \<in> set (foldl (add_alias c) (add_alias c am a) as)" by simp
  from Cons.IH [OF this] show ?case
  proof
    assume "(k, v) \<in> set (add_alias c am a)"
    then show ?thesis
      using set_update_subset [of "norm_str (strip a)" c am]
      by (auto simp: add_alias_def Let_def split: if_splits)
  next
    assume "v = c \<and> k \<in> set (map norm_str (filter (\<lambda>a. a \<noteq> []) (map strip as)))"
    then show ?thesis by auto
  qed
qed

text \<open>What one glossary entry does to the map, when reading its confidence raises nothing.\<close>

lemma add_glossary_entry_cases:
  assumes "add_glossary_entry min_conf am g = Inr am'"
  shows "(\<not> accepted min_conf g \<and> am' = am)
       \<or> (accepted min_conf g
          \<and> am' = foldl (add_alias (canonical g))
                    (AList.update (norm_str (canonical g)) (canonical g) am)
                    (get_list (g_aliases g)))"
  using assms
  by (auto simp: add_glossary_entry_def accepted_def canonical_def Let_def
      split: sum.splits if_splits)

lemma accepted_confidence:
  "accepted min_conf g \<Longrightarrow> \<exists>c. get_float (g_confidence g) = Inr c \<and> \<not> c < min_conf"
  by (auto simp: accepted_def split: sum.splits)

lemma add_glossary_entry_pairs:
  assumes "add_glossary_entry min_conf am g = Inr am'" and "(k, v) \<in> set am'"
  shows "(k, v) \<in> set am \<or> (accepted min_conf g \<and> v = canonical g \<and> k \<in> set (entry_keys g))"
  using add_glossary_entry_cases [OF assms(1)]
proof
  assume "\<not> accepted min_conf g \<and> am' = am"
  with assms(2) show ?thesis by simp
next
  assume a: "accepted min_conf g
          \<and> am' = foldl (add_alias (canonical g))
                    (AList.update (norm_str (canonical g)) (canonical g) am)
                    (get_list (g_aliases g))"
  with assms(2) add_aliases_pairs [of k v "canonical g" _ "get_list (g_aliases g)"]
  have "(k, v) \<in> set (AList.update (norm_str (canonical g)) (canonical g) am)
      \<or> (v = canonical g \<and> k \<in> set (alias_keys g))"
    by (simp add: alias_keys_def)
  with a set_update_subset [of "norm_str (canonical g)" "canonical g" am]
  show ?thesis by (auto simp: entry_keys_def)
qed

lemma glossary_pairs:
  "fold_raise (add_glossary_entry min_conf) am gs = Inr r \<Longrightarrow> (k, v) \<in> set r \<Longrightarrow>
   (k, v) \<in> set am
   \<or> (\<exists>g \<in> set gs. accepted min_conf g \<and> v = canonical g \<and> k \<in> set (entry_keys g))"
proof (induction gs arbitrary: am)
  case Nil
  then show ?case by simp
next
  case (Cons g gs)
  from Cons.prems(1) obtain am' where
    step: "add_glossary_entry min_conf am g = Inr am'" and
    rest: "fold_raise (add_glossary_entry min_conf) am' gs = Inr r"
    by (auto split: sum.splits)
  from Cons.IH [OF rest Cons.prems(2)] add_glossary_entry_pairs [OF step, of k v]
  show ?case by auto
qed

lemma add_language_error_pairs:
  assumes "add_language_error min_conf em e = Inr em'" and "(k, v) \<in> set em'"
  shows "(k, v) \<in> set em \<or>
    ((\<exists>c. get_float (e_confidence e) = Inr c \<and> \<not> c < min_conf)
      \<and> k = norm_str (strip (get_str (incorrect_text e)))
      \<and> v = strip (get_str (correct_form e)))"
  using assms
    set_update_subset [of "norm_str (strip (get_str (incorrect_text e)))"
      "strip (get_str (correct_form e))" em]
  by (auto simp: add_language_error_def Let_def split: if_splits sum.splits)

lemma error_pairs:
  "fold_raise (add_language_error min_conf) em es = Inr r \<Longrightarrow> (k, v) \<in> set r \<Longrightarrow>
   (k, v) \<in> set em
   \<or> (\<exists>e \<in> set es. (\<exists>c. get_float (e_confidence e) = Inr c \<and> \<not> c < min_conf)
      \<and> k = norm_str (strip (get_str (incorrect_text e)))
      \<and> v = strip (get_str (correct_form e)))"
proof (induction es arbitrary: em)
  case Nil
  then show ?case by simp
next
  case (Cons e es)
  from Cons.prems(1) obtain em' where
    step: "add_language_error min_conf em e = Inr em'" and
    rest: "fold_raise (add_language_error min_conf) em' es = Inr r"
    by (auto split: sum.splits)
  from Cons.IH [OF rest Cons.prems(2)] add_language_error_pairs [OF step, of k v]
  show ?case by auto
qed

lemma orchestrator_overrides_default:
  "build_error_map
     \<lparr>glossary = [],
      language_errors = [\<lparr>incorrect_text = Some ''tres'', correct_form = Some ''trop'',
                          e_confidence = Some (Num (75 / 100))\<rparr>]\<rparr> (70 / 100)
   = Inr [(''tres'', ''trop'')]
   \<and> build_error_map
     \<lparr>glossary = [],
      language_errors = [\<lparr>incorrect_text = Some ''tres'', correct_form = Some ''trop'',
                          e_confidence = Some (Num (75 / 100))\<rparr>]\<rparr> error_min_conf_default
   = Inr []"
  by code_simp

text \<open>
  C5. An entry below the threshold leaves no trace. Removing the glossary entries with
  a confidence below the default 0.6 and the language errors with a confidence below
  0.70 from the context changes neither the alias map nor the error map that
  \<^verbatim>\<open>edit_transcript\<close> builds, nor the messages and the report it returns; and every
  pair in the alias map is the canonical term and a key of some glossary entry whose
  confidence is not below 0.6, every pair in the error map the two texts of some
  language error whose confidence is not below 0.70.
\<close>

theorem low_confidence_never_used:
  "build_alias_map (drop_low_confidence ctx) alias_min_conf_default
     = build_alias_map ctx alias_min_conf_default
   \<and> build_error_map (drop_low_confidence ctx) (70 / 100) = build_error_map ctx (70 / 100)
   \<and> edit_result (obj\<lparr>context_inferred := Some (drop_low_confidence ctx)\<rparr>)
     = edit_result (obj\<lparr>context_inferred := Some ctx\<rparr>)
   \<and> (\<forall>alias_map k v.
        build_alias_map ctx alias_min_conf_default = Inr alias_map \<and> (k, v) \<in> set alias_map \<longrightarrow>
        (\<exists>g \<in> set (glossary ctx).
            (\<exists>c. get_float (g_confidence g) = Inr c \<and> \<not> c < alias_min_conf_default)
            \<and> v = canonical g \<and> k \<in> set (entry_keys g)))
   \<and> (\<forall>error_map k v.
        build_error_map ctx (70 / 100) = Inr error_map \<and> (k, v) \<in> set error_map \<longrightarrow>
        (\<exists>e \<in> set (language_errors ctx).
            (\<exists>c. get_float (e_confidence e) = Inr c \<and> \<not> c < 70 / 100)
            \<and> k = norm_str (strip (get_str (incorrect_text e)))
            \<and> v = strip (get_str (correct_form e))))"
proof -
  have a: "build_alias_map (drop_low_confidence ctx) alias_min_conf_default
     = build_alias_map ctx alias_min_conf_default"
    using build_alias_map_filter [where ctx = ctx and min_conf = alias_min_conf_default]
    by (simp add: build_alias_map_def drop_low_confidence_def)
  have e: "build_error_map (drop_low_confidence ctx) (70 / 100) = build_error_map ctx (70 / 100)"
    using build_error_map_filter [where ctx = ctx and min_conf = "70 / 100"]
    by (simp add: build_error_map_def drop_low_confidence_def)
  have r: "edit_result (obj\<lparr>context_inferred := Some (drop_low_confidence ctx)\<rparr>)
     = edit_result (obj\<lparr>context_inferred := Some ctx\<rparr>)"
    using a e by (simp add: edit_result_def edit_transcript_def Let_def split: sum.splits)
  have p: "\<exists>g \<in> set (glossary ctx).
            (\<exists>c. get_float (g_confidence g) = Inr c \<and> \<not> c < alias_min_conf_default)
            \<and> v = canonical g \<and> k \<in> set (entry_keys g)"
    if "build_alias_map ctx alias_min_conf_default = Inr alias_map" and "(k, v) \<in> set alias_map"
    for alias_map k v
  proof -
    from glossary_pairs [of alias_min_conf_default "[]" "glossary ctx" alias_map k v] that
    obtain g where g: "g \<in> set (glossary ctx)" "accepted alias_min_conf_default g"
      "v = canonical g" "k \<in> set (entry_keys g)"
      by (auto simp: build_alias_map_def)
    from accepted_confidence [OF g(2)] g show ?thesis
      by blast
  qed
  have q: "\<exists>e \<in> set (language_errors ctx).
            (\<exists>c. get_float (e_confidence e) = Inr c \<and> \<not> c < 70 / 100)
            \<and> k = norm_str (strip (get_str (incorrect_text e)))
            \<and> v = strip (get_str (correct_form e))"
    if "build_error_map ctx (70 / 100) = Inr error_map" and "(k, v) \<in> set error_map"
    for error_map k v
    using error_pairs [of "70 / 100" "[]" "language_errors ctx" error_map k v] that
    by (auto simp: build_error_map_def)
  from a e r p q show ?thesis by blast
qed

theorem low_confidence_never_used_witness:
  "build_alias_map
       \<lparr>glossary = [\<lparr>g_term = Some ''IA'', g_aliases = Some [''I.A.''],
                      g_confidence = Some (Num (9 / 10))\<rparr>,
                    \<lparr>g_term = Some ''Low'', g_aliases = Some [''lo''],
                      g_confidence = Some (Num (59 / 100))\<rparr>],
        language_errors = [\<lparr>incorrect_text = Some ''tres'', correct_form = Some ''trop'',
                            e_confidence = Some (Num (69 / 100))\<rparr>]\<rparr> alias_min_conf_default
     = Inr [(''ia'', ''IA''), (''i.a.'', ''IA'')]
   \<and> (''ia'', ''IA'') \<in> set [(''ia'', ''IA''), (''i.a.'', ''IA'')]
   \<and> build_alias_map
       (drop_low_confidence
         \<lparr>glossary = [\<lparr>g_term = Some ''IA'', g_aliases = Some [''I.A.''],
                        g_confidence = Some (Num (9 / 10))\<rparr>,
                      \<lparr>g_term = Some ''Low'', g_aliases = Some [''lo''],
                        g_confidence = Some (Num (59 / 100))\<rparr>],
          language_errors = [\<lparr>incorrect_text = Some ''tres'', correct_form = Some ''trop'',
                              e_confidence = Some (Num (69 / 100))\<rparr>]\<rparr>) alias_min_conf_default
     = Inr [(''ia'', ''IA''), (''i.a.'', ''IA'')]
   \<and> build_error_map
       \<lparr>glossary = [\<lparr>g_term = Some ''IA'', g_aliases = Some [''I.A.''],
                      g_confidence = Some (Num (9 / 10))\<rparr>,
                    \<lparr>g_term = Some ''Low'', g_aliases = Some [''lo''],
                      g_confidence = Some (Num (59 / 100))\<rparr>],
        language_errors = [\<lparr>incorrect_text = Some ''tres'', correct_form = Some ''trop'',
                            e_confidence = Some (Num (69 / 100))\<rparr>]\<rparr> (70 / 100)
     = Inr []"
proof -
  let ?ctx = "\<lparr>glossary = [\<lparr>g_term = Some ''IA'', g_aliases = Some [''I.A.''],
                      g_confidence = Some (Num (9 / 10))\<rparr>,
                    \<lparr>g_term = Some ''Low'', g_aliases = Some [''lo''],
                      g_confidence = Some (Num (59 / 100))\<rparr>],
        language_errors = [\<lparr>incorrect_text = Some ''tres'', correct_form = Some ''trop'',
                            e_confidence = Some (Num (69 / 100))\<rparr>]\<rparr>"
  have run: "build_alias_map ?ctx alias_min_conf_default = Inr [(''ia'', ''IA''), (''i.a.'', ''IA'')]"
    by code_simp
  have err: "build_error_map ?ctx (70 / 100) = Inr []"
    by code_simp
  have mem: "(''ia'', ''IA'') \<in> set [(''ia'', ''IA''), (''i.a.'', ''IA'')]"
    by simp
  from low_confidence_never_used
    [of ?ctx "\<lparr>messages = [], context_inferred = None, transformation_report = NoReport\<rparr>"]
    run err mem
  show ?thesis
    by (simp only:)
qed

section \<open>Segments without content\<close>

lemma apply_fixes_empty_text: "apply_fixes [] alias_map error_map = Inr ([], [])"
proof -
  have g: "glossary_fix alias_map [] [] = Inr ([], [])"
    unfolding glossary_fix_def by (rule fix_loop_empty_text) (simp add: set_sorted_keys)
  have l: "language_fix error_map [] [] = Inr ([], [])"
    unfolding language_fix_def by (rule fix_loop_empty_text) (simp add: set_sorted_keys)
  have d: "dedup_fix [] [] = ([], [])"
    by (simp add: dedup_fix_def dedup_def subst_def)
  have p: "punctuation_fix [] [] = Inr ([], [])"
    by (simp add: punctuation_fix_def punctuate_empty)
  show ?thesis
    by (simp add: apply_fixes_def g l d p)
qed

text \<open>
  A segment without the key \<^verbatim>\<open>content\<close>, or with the empty string under it, is edited
  as the empty text, whatever the two maps are: nothing is raised, no operation is
  recorded, and the segment is reported as unchanged.
\<close>

lemma edit_segment_contentless:
  assumes "contentless m"
  shows "edit_segment alias_map error_map i m =
          Inr (AList.update ''content'' (PStr []) m,
               \<lparr>index = i, start_time = get_or_none m ''start_time'',
                end_time = get_or_none m ''end_time'', speaker = get_or_none m ''speaker'',
                changed = False, operations = []\<rparr>)"
proof -
  from assms have "py_str (get_or_empty m ''content'') = []"
    by (auto simp: contentless_def get_or_empty_def)
  then show ?thesis
    by (simp add: edit_segment_def apply_fixes_empty_text)
qed

text \<open>
  With replacement texts that have no backslash, the two loops over the keys raise
  nothing.
\<close>

lemma fix_loop_no_raise:
  "set ks \<subseteq> fst ` set m \<Longrightarrow> (\<forall>p \<in> set m. plain (snd p)) \<Longrightarrow>
   \<exists>r ops'. fix_loop kind conf src m ks result ops = Inr (r, ops')"
proof (induction ks arbitrary: result ops)
  case Nil
  then show ?case by simp
next
  case (Cons a ks)
  then have "a \<in> fst ` set m" by simp
  then obtain v where v: "map_of m a = Some v"
    by (cases "map_of m a") (auto simp: map_of_eq_None_iff)
  then have "(a, v) \<in> set m" by (rule map_of_SomeD)
  with Cons.prems(2) have "backslash \<notin> set v"
    by (auto simp: plain_def)
  then have sub: "re_sub (literal_pattern a) 0 v result =
     Inr (concat (map (\<lambda>p. case p of Keep c \<Rightarrow> [c] | Hit m gs \<Rightarrow> v)
            (re_scan (literal_pattern a) None result)))"
    by (rule re_sub_literal)
  from Cons.prems have ks: "set ks \<subseteq> fst ` set m" by simp
  show ?case
    using Cons.IH [OF ks Cons.prems(2)] by (simp add: v sub)
qed

text \<open>
  C8. The editor reads the content of a segment with \<^verbatim>\<open>str(m.get("content", ""))\<close>. A
  segment without the key is edited as the empty text, with no operation and no change.
  A segment whose content is JSON \<^verbatim>\<open>null\<close> is not: \<^verbatim>\<open>str\<close> makes the four letters of
  \<^verbatim>\<open>None\<close> of it, the pipeline puts a full stop behind them and records an operation,
  and the segment counts as modified. Below, the first segment has no content and the
  second has \<^verbatim>\<open>null\<close>.
\<close>

theorem null_content_becomes_text:
  "edit_transcript
     \<lparr>messages = [[(''speaker'', PStr ''spk_0'')],
                  [(''speaker'', PStr ''spk_1''), (''content'', PNone)]],
      context_inferred = None, transformation_report = NoReport\<rparr>
   = Inr \<lparr>out_messages = [[(''speaker'', PStr ''spk_0''), (''content'', PStr [])],
                          [(''speaker'', PStr ''spk_1''), (''content'', PStr ''None.'')]],
          out_context_inferred = None,
          editor =
            \<lparr>policy =
               \<lparr>glossary_normalization = True, language_error_correction = True,
                deduplication = True, light_punctuation = True,
                timestamps_preserved = True, speaker_labels_preserved = True\<rparr>,
             total_segments = 2, segments_modified = 1,
             segment_reports =
               [\<lparr>index = 0, start_time = PNone, end_time = PNone,
                 speaker = PStr ''spk_0'', changed = False, operations = []\<rparr>,
                \<lparr>index = 1, start_time = PNone, end_time = PNone,
                 speaker = PStr ''spk_1'', changed = True,
                 operations =
                   [\<lparr>op = ''punctuation'',
                     detail = Plain ''Capitalization + ending punctuation'',
                     before = ''None'', after = ''None.'', confidence = 8 / 10,
                     source = ''rule''\<rparr>]\<rparr>]\<rparr>\<rparr>"
  by code_simp

section \<open>The self-mapping of a glossary term\<close>

lemma add_aliases_keeps_value:
  "map_of am k = Some c \<Longrightarrow> map_of (foldl (add_alias c) am as) k = Some c"
  by (induction as arbitrary: am) (auto simp: add_alias_def Let_def update_conv')

lemma add_aliases_other_key:
  "k \<notin> set (map norm_str (filter (\<lambda>a. a \<noteq> []) (map strip as))) \<Longrightarrow>
   map_of (foldl (add_alias c) am as) k = map_of am k"
  by (induction as arbitrary: am) (auto simp: add_alias_def Let_def update_conv')

lemma add_aliases_writes:
  "k \<in> set (map norm_str (filter (\<lambda>a. a \<noteq> []) (map strip as))) \<Longrightarrow>
   map_of (foldl (add_alias c) am as) k = Some c"
proof (induction as arbitrary: am)
  case Nil
  then show ?case by simp
next
  case (Cons a as)
  show ?case
  proof (cases "strip a \<noteq> [] \<and> k = norm_str (strip a)")
    case True
    then have "map_of (add_alias c am a) k = Some c"
      by (simp add: add_alias_def update_conv')
    then show ?thesis
      by (simp add: add_aliases_keeps_value)
  next
    case False
    with Cons.prems have "k \<in> set (map norm_str (filter (\<lambda>a. a \<noteq> []) (map strip as)))"
      by (auto split: if_splits)
    from Cons.IH [OF this] show ?thesis
      by simp
  qed
qed

lemma entry_writes_value:
  assumes "add_glossary_entry min_conf am h = Inr am'" and "writes min_conf h k"
  shows "map_of am' k = Some (canonical h)"
proof -
  from assms(2) have acc: "accepted min_conf h" and k: "k \<in> set (entry_keys h)"
    by (simp_all add: writes_def)
  from add_glossary_entry_cases [OF assms(1)] acc
  have am': "am' = foldl (add_alias (canonical h))
                    (AList.update (norm_str (canonical h)) (canonical h) am)
                    (get_list (g_aliases h))"
    by auto
  show ?thesis
  proof (cases "k \<in> set (alias_keys h)")
    case True
    then show ?thesis
      unfolding am' alias_keys_def by (rule add_aliases_writes)
  next
    case False
    with k have "k = norm_str (canonical h)"
      by (simp add: entry_keys_def)
    then show ?thesis
      unfolding am' by (intro add_aliases_keeps_value) (simp add: update_conv')
  qed
qed

lemma entry_other_key:
  assumes "add_glossary_entry min_conf am h = Inr am'" and "\<not> writes min_conf h k"
  shows "map_of am' k = map_of am k"
  using add_glossary_entry_cases [OF assms(1)] assms(2)
  by (auto simp: writes_def entry_keys_def alias_keys_def update_conv' add_aliases_other_key)

lemma glossary_other_keys:
  "fold_raise (add_glossary_entry min_conf) am hs = Inr r \<Longrightarrow>
   \<forall>h \<in> set hs. \<not> writes min_conf h k \<Longrightarrow> map_of r k = map_of am k"
proof (induction hs arbitrary: am)
  case Nil
  then show ?case by simp
next
  case (Cons h hs)
  from Cons.prems(1) obtain am' where
    step: "add_glossary_entry min_conf am h = Inr am'" and
    rest: "fold_raise (add_glossary_entry min_conf) am' hs = Inr r"
    by (auto split: sum.splits)
  from Cons.prems(2) have "\<not> writes min_conf h k" and "\<forall>h \<in> set hs. \<not> writes min_conf h k"
    by simp_all
  with Cons.IH [OF rest] entry_other_key [OF step] show ?case
    by simp
qed

text \<open>
  Last write wins: the value under a key is the canonical term of the last entry of
  the glossary that writes the key.
\<close>

lemma last_writer:
  assumes "fold_raise (add_glossary_entry min_conf) am (pre @ h # rest) = Inr r"
    and "writes min_conf h k" and "\<forall>h' \<in> set rest. \<not> writes min_conf h' k"
  shows "map_of r k = Some (canonical h)"
proof -
  from assms(1) obtain a b where
    "fold_raise (add_glossary_entry min_conf) am pre = Inr a" and
    step: "add_glossary_entry min_conf a h = Inr b" and
    rest: "fold_raise (add_glossary_entry min_conf) b rest = Inr r"
    by (auto simp: fold_raise_append split: sum.splits)
  from entry_writes_value [OF step assms(2)] glossary_other_keys [OF rest assms(3)]
  show ?thesis by simp
qed

lemma last_writer_exists:
  assumes "writes min_conf g k"
  shows "\<exists>mid h rest. g # post = mid @ h # rest \<and> writes min_conf h k
           \<and> (\<forall>h' \<in> set rest. \<not> writes min_conf h' k)"
proof (induction post rule: rev_induct)
  case Nil
  from assms show ?case by (intro exI [of _ "[]"] exI [of _ g]) simp
next
  case (snoc x post)
  then obtain mid h rest where
    s: "g # post = mid @ h # rest" "writes min_conf h k" "\<forall>h' \<in> set rest. \<not> writes min_conf h' k"
    by blast
  show ?case
  proof (cases "writes min_conf x k")
    case True
    then show ?thesis
      by (intro exI [of _ "g # post"] exI [of _ x] exI [of _ "[]"]) simp
  next
    case False
    with s show ?thesis
      by (intro exI [of _ mid] exI [of _ h] exI [of _ "rest @ [x]"]) simp
  qed
qed

text \<open>
  C2, as the code has it. When the builder returns, then for every accepted glossary
  entry (term not empty after trimming, confidence not below the threshold) the
  normalised form of its trimmed term is a key of the alias map, and the key maps to the
  trimmed term of the last accepted entry of the glossary that writes it, as its own
  term or as one of its aliases: to the entry's own term when no accepted entry later in
  the glossary writes the key, and to the term of the last such entry otherwise. The
  last write wins.
\<close>

theorem self_mapping_last_write_wins:
  assumes "build_alias_map ctx min_conf = Inr alias_map"
    and "glossary ctx = pre @ g # post" and "accepted min_conf g"
  shows "norm_str (canonical g) \<in> fst ` set alias_map
       \<and> ((\<forall>h \<in> set post. \<not> writes min_conf h (norm_str (canonical g)))
            \<longrightarrow> map_of alias_map (norm_str (canonical g)) = Some (canonical g))
       \<and> (\<forall>mid h rest.
            post = mid @ h # rest \<and> writes min_conf h (norm_str (canonical g))
              \<and> (\<forall>h' \<in> set rest. \<not> writes min_conf h' (norm_str (canonical g)))
            \<longrightarrow> map_of alias_map (norm_str (canonical g)) = Some (canonical h))"
proof -
  let ?k = "norm_str (canonical g)"
  from assms(1,2) have run:
    "fold_raise (add_glossary_entry min_conf) [] (pre @ g # post) = Inr alias_map"
    by (simp add: build_alias_map_def)
  from assms(3) have w: "writes min_conf g ?k"
    by (simp add: writes_def entry_keys_def)
  have own: "map_of alias_map ?k = Some (canonical g)"
    if "\<forall>h \<in> set post. \<not> writes min_conf h ?k"
    using run w that by (rule last_writer)
  have later: "map_of alias_map ?k = Some (canonical h)"
    if "post = mid @ h # rest" and "writes min_conf h ?k"
      and "\<forall>h' \<in> set rest. \<not> writes min_conf h' ?k" for mid h rest
  proof -
    from run that(1) have
      "fold_raise (add_glossary_entry min_conf) [] ((pre @ g # mid) @ h # rest) = Inr alias_map"
      by simp
    from this that(2,3) show ?thesis
      by (rule last_writer)
  qed
  from last_writer_exists [OF w, of post] obtain mid h rest where
    s: "g # post = mid @ h # rest" "writes min_conf h ?k"
      "\<forall>h' \<in> set rest. \<not> writes min_conf h' ?k"
    by blast
  from run s(1) have
    "fold_raise (add_glossary_entry min_conf) [] ((pre @ mid) @ h # rest) = Inr alias_map"
    by simp
  from this s(2,3) have "map_of alias_map ?k = Some (canonical h)"
    by (rule last_writer)
  then have present: "?k \<in> fst ` set alias_map"
    by (metis domI dom_map_of_conv_image_fst)
  from present own later show ?thesis
    by blast
qed

theorem self_mapping_last_write_wins_witness:
  "build_alias_map
       \<lparr>glossary = [\<lparr>g_term = Some ''AI'', g_aliases = Some [''A.I.''],
                      g_confidence = Some (Num (9 / 10))\<rparr>,
                    \<lparr>g_term = Some ''Artificial Intelligence'', g_aliases = Some [''AI''],
                      g_confidence = Some (Num (8 / 10))\<rparr>],
        language_errors = []\<rparr> alias_min_conf_default
     = Inr [(''ai'', ''Artificial Intelligence''), (''a.i.'', ''AI''),
            (''artificial intelligence'', ''Artificial Intelligence'')]
   \<and> map_of [(''ai'', ''Artificial Intelligence''), (''a.i.'', ''AI''),
              (''artificial intelligence'', ''Artificial Intelligence'')]
        (norm_str ''Artificial Intelligence'') = Some ''Artificial Intelligence''
   \<and> map_of [(''ai'', ''Artificial Intelligence''), (''a.i.'', ''AI''),
              (''artificial intelligence'', ''Artificial Intelligence'')]
        (norm_str ''AI'') = Some ''Artificial Intelligence''"
proof -
  let ?g = "\<lparr>g_term = Some ''AI'', g_aliases = Some [''A.I.''],
             g_confidence = Some (Num (9 / 10))\<rparr>"
  let ?h = "\<lparr>g_term = Some ''Artificial Intelligence'', g_aliases = Some [''AI''],
             g_confidence = Some (Num (8 / 10))\<rparr>"
  let ?ctx = "\<lparr>glossary = [?g, ?h], language_errors = []\<rparr>"
  let ?am = "[(''ai'', ''Artificial Intelligence''), (''a.i.'', ''AI''),
              (''artificial intelligence'', ''Artificial Intelligence'')]"
  have run: "build_alias_map ?ctx alias_min_conf_default = Inr ?am"
    by code_simp
  have split_g: "glossary ?ctx = [] @ ?g # [?h]" and split_h: "glossary ?ctx = [?g] @ ?h # []"
    by simp_all
  have acc_g: "accepted alias_min_conf_default ?g" and acc_h: "accepted alias_min_conf_default ?h"
    by code_simp+
  have cg: "canonical ?g = ''AI''" and ch: "canonical ?h = ''Artificial Intelligence''"
    by code_simp+
  have wh: "writes alias_min_conf_default ?h (norm_str (canonical ?g))"
    by code_simp
  have none_later: "\<forall>h \<in> set []. \<not> writes alias_min_conf_default h (norm_str (canonical ?h))"
    by simp
  have last: "[?h] = [] @ ?h # [] \<and> writes alias_min_conf_default ?h (norm_str (canonical ?g))
      \<and> (\<forall>h' \<in> set []. \<not> writes alias_min_conf_default h' (norm_str (canonical ?g)))"
    using wh by simp
  from self_mapping_last_write_wins [OF run split_h acc_h] none_later
  have own: "map_of ?am (norm_str (canonical ?h)) = Some (canonical ?h)"
    by blast
  from self_mapping_last_write_wins [OF run split_g acc_g] last
  have later: "map_of ?am (norm_str (canonical ?g)) = Some (canonical ?h)"
    by blast
  from run own later show ?thesis
    by (simp only: cg ch)
qed

text \<open>
  C2 as stated fails when a later entry lists an earlier entry's term among its aliases:
  the key of the earlier term then maps to the later term.
\<close>

theorem self_mapping_counterexample:
  "build_alias_map
       \<lparr>glossary = [\<lparr>g_term = Some ''AI'', g_aliases = Some [],
                      g_confidence = Some (Num (9 / 10))\<rparr>,
                    \<lparr>g_term = Some ''Artificial Intelligence'', g_aliases = Some [''AI''],
                     g_confidence = Some (Num (9 / 10))\<rparr>],
        language_errors = []\<rparr> alias_min_conf_default
   = Inr [(''ai'', ''Artificial Intelligence''),
          (''artificial intelligence'', ''Artificial Intelligence'')]
   \<and> norm_str ''AI'' = ''ai''"
  by code_simp

section \<open>Word boundaries\<close>



text \<open>
  Accented letters are word characters, and case is folded for them as for the others:
  the key \<^verbatim>\<open>cole\<close> does not match inside the word that starts with an e acute, and a
  key of three letters with two e acute matches the free-standing word whose first
  letter is the capital.
\<close>

lemma accented_letters_are_word_characters:
  "\<not> re_search (literal_pattern ''cole'') (CHR 0xE9 # ''cole'')
   \<and> re_scan (literal_pattern [CHR 0xE9, CHR ''t'', CHR 0xE9]) None
        (''un '' @ [CHR 0xC9, CHR ''t'', CHR 0xE9])
     = [Keep (CHR ''u''), Keep (CHR ''n''), Keep (CHR '' ''), Hit [CHR 0xC9, CHR ''t'', CHR 0xE9] []]"
  by code_simp



section \<open>The order of the keys\<close>

lemma sorted_keys_descending:
  assumes "i < j" and "j < length (sorted_keys m)"
  shows "length (sorted_keys m ! j) \<le> length (sorted_keys m ! i)"
proof -
  let ?ks = "sort_key length (rev (map fst m))"
  have "sorted (map length ?ks)"
    by (rule sorted_sort_key)
  then have "sorted_wrt (\<lambda>a b. length a \<le> length b) ?ks"
    by (simp add: sorted_wrt_map)
  then have "sorted_wrt (\<lambda>a b. length b \<le> length a) (rev ?ks)"
    by (simp add: sorted_wrt_rev)
  then have "sorted_wrt (\<lambda>a b. length b \<le> length a) (sorted_keys m)"
    by (simp add: sorted_keys_def)
  with assms show ?thesis
    by (simp add: sorted_wrt_iff_nth_less)
qed

lemma scan_ai_model:
  "re_scan (literal_pattern ''AI model'') None ''the AI model is great'' =
     [Keep (CHR ''t''), Keep (CHR ''h''), Keep (CHR ''e''), Keep (CHR '' ''),
      Hit ''AI model'' [],
      Keep (CHR '' ''), Keep (CHR ''i''), Keep (CHR ''s''), Keep (CHR '' ''),
      Keep (CHR ''g''), Keep (CHR ''r''), Keep (CHR ''e''), Keep (CHR ''a''), Keep (CHR ''t'')]"
  by code_simp

lemma search_ai_in_original:
  "re_search (literal_pattern ''AI'') ''the AI model is great''"
  by code_simp

lemma sorted_keys_stable:
  "filter (\<lambda>k. length k = n) (sorted_keys m) = filter (\<lambda>k. length k = n) (map fst m)"
proof -
  have "filter (\<lambda>k. length k = n) (sorted_keys m)
      = rev (filter (\<lambda>k. length k = n) (sort_key length (rev (map fst m))))"
    by (simp add: sorted_keys_def rev_filter)
  also have "\<dots> = rev (filter (\<lambda>k. length k = n) (rev (map fst m)))"
    by (simp only: sort_key_stable)
  also have "\<dots> = filter (\<lambda>k. length k = n) (map fst m)"
    by (simp add: rev_filter)
  finally show ?thesis .
qed

text \<open>
  C6, as the code has it. The keys of a map are applied in order of non-increasing
  length, keys of the same length in the order the map holds them; a key is thus
  applied before every key shorter than it. With the keys AI and AI model in the alias
  map, in either order, the glossary pass on \<^verbatim>\<open>the AI model is great\<close> first replaces
  the whole span AI model, on the input text, and only then looks for AI in what that
  left: when the term of AI model has no backslash the span becomes that term, and
  when that term does not bring the word AI back, this is the only operation.
\<close>

theorem longer_keys_first:
  assumes "alias_map = [(''AI'', t1), (''AI model'', t2)]
       \<or> alias_map = [(''AI model'', t2), (''AI'', t1)]"
  shows "(\<forall>i j. i < j \<and> j < length (sorted_keys m) \<longrightarrow>
            length (sorted_keys m ! j) \<le> length (sorted_keys m ! i))
       \<and> (\<forall>n. filter (\<lambda>k. length k = n) (sorted_keys m)
               = filter (\<lambda>k. length k = n) (map fst m))
       \<and> sorted_keys alias_map = [''AI model'', ''AI'']
       \<and> glossary_fix alias_map ''the AI model is great'' [] =
           (case re_sub (literal_pattern ''AI model'') 0 t2 ''the AI model is great'' of
              Inl e \<Rightarrow> Inl e
            | Inr r \<Rightarrow>
                fix_loop ''glossary_normalization'' (9 / 10) ''glossary'' alias_map [''AI''] r
                  (if r \<noteq> ''the AI model is great'' then
                     [\<lparr>op = ''glossary_normalization'', detail = Arrow ''AI model'' t2,
                       before = ''the AI model is great'', after = r,
                       confidence = 9 / 10, source = ''glossary''\<rparr>]
                   else []))
       \<and> (plain t2 \<longrightarrow>
            re_sub (literal_pattern ''AI model'') 0 t2 ''the AI model is great''
              = Inr (''the '' @ t2 @ '' is great''))
       \<and> (plain t2 \<and> \<not> re_search (literal_pattern ''AI'') (''the '' @ t2 @ '' is great'') \<longrightarrow>
            glossary_fix alias_map ''the AI model is great'' [] =
              Inr (''the '' @ t2 @ '' is great'',
                [\<lparr>op = ''glossary_normalization'', detail = Arrow ''AI model'' t2,
                  before = ''the AI model is great'', after = ''the '' @ t2 @ '' is great'',
                  confidence = 9 / 10, source = ''glossary''\<rparr>]))"
proof -
  have order: "sorted_keys alias_map = [''AI model'', ''AI'']"
    using assms by (auto simp: sorted_keys_def)
  have look: "map_of alias_map ''AI model'' = Some t2" "map_of alias_map ''AI'' = Some t1"
    using assms by auto
  have found: "re_search (literal_pattern ''AI model'') ''the AI model is great''"
    by code_simp
  have step: "glossary_fix alias_map ''the AI model is great'' [] =
           (case re_sub (literal_pattern ''AI model'') 0 t2 ''the AI model is great'' of
              Inl e \<Rightarrow> Inl e
            | Inr r \<Rightarrow>
                fix_loop ''glossary_normalization'' (9 / 10) ''glossary'' alias_map [''AI''] r
                  (if r \<noteq> ''the AI model is great'' then
                     [\<lparr>op = ''glossary_normalization'', detail = Arrow ''AI model'' t2,
                       before = ''the AI model is great'', after = r,
                       confidence = 9 / 10, source = ''glossary''\<rparr>]
                   else []))"
    unfolding glossary_fix_def order
    by (simp add: look found del: fix_loop.simps(2) split: sum.splits)
       (simp add: fix_loop.simps(2) [of _ _ _ _ "''AI model''"] look found)
  have sub: "re_sub (literal_pattern ''AI model'') 0 t2 ''the AI model is great''
      = Inr (''the '' @ t2 @ '' is great'')" if "plain t2"
  proof -
    from that have "backslash \<notin> set t2"
      by (simp add: plain_def)
    then have "re_sub (literal_pattern ''AI model'') 0 t2 ''the AI model is great''
      = Inr (concat (map (\<lambda>p. case p of Keep c \<Rightarrow> [c] | Hit m gs \<Rightarrow> t2)
               (re_scan (literal_pattern ''AI model'') None ''the AI model is great'')))"
      by (rule re_sub_literal)
    also have "\<dots> = Inr (''the '' @ t2 @ '' is great'')"
      unfolding scan_ai_model by simp
    finally show ?thesis .
  qed
  have full: "glossary_fix alias_map ''the AI model is great'' [] =
              Inr (''the '' @ t2 @ '' is great'',
                [\<lparr>op = ''glossary_normalization'', detail = Arrow ''AI model'' t2,
                  before = ''the AI model is great'', after = ''the '' @ t2 @ '' is great'',
                  confidence = 9 / 10, source = ''glossary''\<rparr>])"
    if p: "plain t2" and n: "\<not> re_search (literal_pattern ''AI'') (''the '' @ t2 @ '' is great'')"
  proof -
    from n search_ai_in_original
    have changed: "''the '' @ t2 @ '' is great'' \<noteq> ''the AI model is great''"
      by metis
    show ?thesis
      unfolding step sub [OF p] using changed n by (simp add: look)
  qed
  from order step sub full sorted_keys_descending sorted_keys_stable show ?thesis
    by blast
qed


theorem longer_keys_first_witness:
  "plain ''LLM''
   \<and> \<not> re_search (literal_pattern ''AI'') (''the '' @ ''LLM'' @ '' is great'')
   \<and> sorted_keys [(''AI'', ''Artificial Intelligence''), (''AI model'', ''LLM'')]
       = [''AI model'', ''AI'']
   \<and> glossary_fix [(''AI'', ''Artificial Intelligence''), (''AI model'', ''LLM'')]
        ''the AI model is great'' [] =
           Inr (''the '' @ ''LLM'' @ '' is great'',
                [\<lparr>op = ''glossary_normalization'', detail = Arrow ''AI model'' ''LLM'',
                  before = ''the AI model is great'', after = ''the '' @ ''LLM'' @ '' is great'',
                  confidence = 9 / 10, source = ''glossary''\<rparr>])"
proof -
  have p: "plain ''LLM''"
    by code_simp
  have n: "\<not> re_search (literal_pattern ''AI'') (''the '' @ ''LLM'' @ '' is great'')"
    by code_simp
  have a: "[(''AI'', ''Artificial Intelligence''), (''AI model'', ''LLM'')]
        = [(''AI'', ''Artificial Intelligence''), (''AI model'', ''LLM'')]
      \<or> [(''AI'', ''Artificial Intelligence''), (''AI model'', ''LLM'')]
        = [(''AI model'', ''LLM''), (''AI'', ''Artificial Intelligence'')]"
    by simp
  from longer_keys_first [OF a] p n show ?thesis
    by blast
qed

text \<open>
  C6 as stated fails where two keys have the same length: they are applied one after
  the other, in insertion order, and the length does not decrease between them.
\<close>

theorem equal_length_keys_counterexample:
  "sorted_keys [(''ia'', ''IA''), (''ml'', ''ML'')] = [''ia'', ''ml'']
   \<and> length ''ia'' = length ''ml''
   \<and> glossary_fix [(''ia'', ''IA''), (''ml'', ''ML'')] ''ml et ia'' [] =
       Inr (''ML et IA'',
         [\<lparr>op = ''glossary_normalization'', detail = Arrow ''ia'' ''IA'',
           before = ''ml et ia'', after = ''ml et IA'', confidence = 9 / 10,
           source = ''glossary''\<rparr>,
          \<lparr>op = ''glossary_normalization'', detail = Arrow ''ml'' ''ML'',
           before = ''ml et IA'', after = ''ML et IA'', confidence = 9 / 10,
           source = ''glossary''\<rparr>])"
  by code_simp

section \<open>Running the pipeline again\<close>

text \<open>
  C1, as the code has it. The punctuation pass never triggers again on its own output:
  when, on the text a first run returned, the glossary pass, the language-error pass
  and the deduplication find nothing to change, a second run returns that text with no
  operation. The three earlier passes can find new work in the output of a run, so a
  second run is not always empty.
\<close>

theorem rerun_adds_nothing_once_settled:
  assumes "apply_fixes t alias_map error_map = Inr (out, ops)"
    and "glossary_fix alias_map out [] = Inr (out, [])"
    and "language_fix error_map out [] = Inr (out, [])"
    and "dedup out = out"
  shows "apply_fixes out alias_map error_map = Inr (out, [])"
proof -
  from assms(1) obtain r3 ops3 where "punctuation_fix r3 ops3 = Inr (out, ops)"
    by (auto simp: apply_fixes_def split: sum.splits prod.splits)
  then have "punctuate r3 = Inr out"
    by (auto simp: punctuation_fix_def Let_def split: if_splits sum.splits)
  then have p: "punctuate out = Inr out"
    by (rule punctuate_idem)
  from assms(4) have d: "dedup_fix out [] = (out, [])"
    by (simp add: dedup_fix_def)
  from p have "punctuation_fix out [] = Inr (out, [])"
    by (simp add: punctuation_fix_def)
  with assms(2,3) d show ?thesis
    by (simp add: apply_fixes_def)
qed

theorem rerun_adds_nothing_once_settled_witness:
  "apply_fixes ''oui oui bon'' [(''ia'', ''IA'')] [] =
     Inr (''Oui bon.'',
       [\<lparr>op = ''deduplication'', detail = Plain ''Removed immediate repetition'',
         before = ''oui oui bon'', after = ''oui bon'', confidence = 9 / 10,
         source = ''rule''\<rparr>,
        \<lparr>op = ''punctuation'', detail = Plain ''Capitalization + ending punctuation'',
         before = ''oui bon'', after = ''Oui bon.'', confidence = 8 / 10,
         source = ''rule''\<rparr>])
   \<and> apply_fixes ''Oui bon.'' [(''ia'', ''IA'')] [] = Inr (''Oui bon.'', [])"
proof -
  have run: "apply_fixes ''oui oui bon'' [(''ia'', ''IA'')] [] =
     Inr (''Oui bon.'',
       [\<lparr>op = ''deduplication'', detail = Plain ''Removed immediate repetition'',
         before = ''oui oui bon'', after = ''oui bon'', confidence = 9 / 10,
         source = ''rule''\<rparr>,
        \<lparr>op = ''punctuation'', detail = Plain ''Capitalization + ending punctuation'',
         before = ''oui bon'', after = ''Oui bon.'', confidence = 8 / 10,
         source = ''rule''\<rparr>])"
    by code_simp
  have g: "glossary_fix [(''ia'', ''IA'')] ''Oui bon.'' [] = Inr (''Oui bon.'', [])"
    by code_simp
  have l: "language_fix [] ''Oui bon.'' [] = Inr (''Oui bon.'', [])"
    by code_simp
  have d: "dedup ''Oui bon.'' = ''Oui bon.''"
    by code_simp
  from rerun_adds_nothing_once_settled [OF run g l d] run show ?thesis
    by simp
qed

text \<open>
  C1 as stated fails when a replacement brings in a key of a pass that has already
  run: the language-error pass writes \<^verbatim>\<open>neural net\<close>, which the glossary pass of the
  second run turns into \<^verbatim>\<open>neural network\<close>.
\<close>

theorem second_run_counterexample:
  "apply_fixes ''nn''
     [(''neural network'', ''neural network''), (''neural net'', ''neural network'')]
     [(''nn'', ''neural net'')]
   = Inr (''Neural net.'',
       [\<lparr>op = ''language_error_fix'', detail = Arrow ''nn'' ''neural net'',
         before = ''nn'', after = ''neural net'', confidence = 85 / 100,
         source = ''llm_error''\<rparr>,
        \<lparr>op = ''punctuation'', detail = Plain ''Capitalization + ending punctuation'',
         before = ''neural net'', after = ''Neural net.'', confidence = 8 / 10,
         source = ''rule''\<rparr>])
   \<and> apply_fixes ''Neural net.''
     [(''neural network'', ''neural network''), (''neural net'', ''neural network'')]
     [(''nn'', ''neural net'')]
   = Inr (''Neural network.'',
       [\<lparr>op = ''glossary_normalization'', detail = Arrow ''neural net'' ''neural network'',
         before = ''Neural net.'', after = ''neural network.'', confidence = 9 / 10,
         source = ''glossary''\<rparr>,
        \<lparr>op = ''punctuation'', detail = Plain ''Capitalization + ending punctuation'',
         before = ''neural network.'', after = ''Neural network.'', confidence = 8 / 10,
         source = ''rule''\<rparr>])"
  by code_simp

section \<open>The deduplication pass\<close>

lemma dedup_fix_operation:
  "dedup_fix result ops =
     (dedup result,
      if dedup result \<noteq> result then
        ops @ [\<lparr>op = ''deduplication'', detail = Plain ''Removed immediate repetition'',
                 before = result, after = dedup result, confidence = 9 / 10,
                 source = ''rule''\<rparr>]
      else ops)"
  by (simp add: dedup_fix_def Let_def)

text \<open>
  C4. The deduplication is one substitution over matches that do not overlap. A word
  said three times is matched once, as the first two occurrences, and the scan goes on
  behind the second: \<^verbatim>\<open>no no no\<close> becomes \<^verbatim>\<open>no no\<close>, in which the pattern still
  matches, and that is the text the pipeline then punctuates and returns. The pass
  records its one operation, as it does whenever it changed the text.
\<close>

theorem triple_repetition_survives:
  "dedup ''no no no'' = ''no no''
   \<and> re_search dedup_pattern ''no no''
   \<and> apply_fixes ''no no no'' [] [] =
       Inr (''No no.'',
         [\<lparr>op = ''deduplication'', detail = Plain ''Removed immediate repetition'',
           before = ''no no no'', after = ''no no'', confidence = 9 / 10,
           source = ''rule''\<rparr>,
          \<lparr>op = ''punctuation'', detail = Plain ''Capitalization + ending punctuation'',
           before = ''no no'', after = ''No no.'', confidence = 8 / 10,
           source = ''rule''\<rparr>])"
  by code_simp

section \<open>The replacement is a template\<close>

lemma plain_replacement_is_literal:
  "plain t \<Longrightarrow>
   re_sub (literal_pattern key) 0 t s =
     Inr (concat (map (\<lambda>p. case p of Keep c \<Rightarrow> [c] | Hit m gs \<Rightarrow> t)
            (re_scan (literal_pattern key) None s)))"
  unfolding plain_def by (rule re_sub_literal)

text \<open>
  C7. The replacement goes to \<^verbatim>\<open>pattern.sub\<close> as it is stored, and \<^verbatim>\<open>pattern.sub\<close>
  reads it as a template. A stored term with a backslash in it is therefore not what
  ends up in the text: in the term \<^verbatim>\<open>C:\temp\<close> the backslash and the t become a tab
  character, and the term \<^verbatim>\<open>C:\data\<close> is a malformed template, on which the pipeline
  stops with an exception. A term without a backslash is put in as it is stored.
\<close>

theorem backslash_term_is_rewritten:
  "apply_fixes ''see temp'' [(''temp'', ''C:'' @ backslash # ''temp'')] [] =
     Inr (''See C:'' @ CHR 0x09 # ''emp.'',
       [\<lparr>op = ''glossary_normalization'',
         detail = Arrow ''temp'' (''C:'' @ backslash # ''temp''),
         before = ''see temp'', after = ''see C:'' @ CHR 0x09 # ''emp'',
         confidence = 9 / 10, source = ''glossary''\<rparr>,
        \<lparr>op = ''punctuation'', detail = Plain ''Capitalization + ending punctuation'',
         before = ''see C:'' @ CHR 0x09 # ''emp'', after = ''See C:'' @ CHR 0x09 # ''emp.'',
         confidence = 8 / 10, source = ''rule''\<rparr>])
   \<and> apply_fixes ''see data'' [(''data'', ''C:'' @ backslash # ''data'')] [] = Inl TemplateError"
  by code_simp

end
